theory Spec2Isabelle
  imports Main
begin

section \<open>The element type and the outcomes of an operation\<close>

text \<open>
  \<^verbatim>\<open>vector.h\<close> defines two class templates, \<^verbatim>\<open>RawMemory<T>\<close> (a block of raw
  slots) and \<^verbatim>\<open>Vector<T>\<close> (the block plus the number of live elements).

  A slot of a block is \<open>None\<close> while it is raw memory and \<open>Some x\<close> while it holds a
  constructed object of value \<open>x\<close>.  An owning pointer to a block is the block itself
  (or \<open>None\<close> for \<^verbatim>\<open>nullptr\<close>): \<^verbatim>\<open>RawMemory\<close> cannot be copied, so no two objects
  ever share a block.  Pointers into a block (iterators) are offsets from its start.

  \<^verbatim>\<open>size_t\<close> has 64 bits and is modelled by \<open>nat\<close>, with the wrap-around written out
  where the code computes a value that can leave the range: the product
  \<^verbatim>\<open>n * sizeof(T)\<close> in \<^verbatim>\<open>Allocate\<close>, the products \<^verbatim>\<open>Capacity() * 2\<close> and
  \<^verbatim>\<open>capacity * 2\<close>, and \<^verbatim>\<open>--size_\<close> in \<^verbatim>\<open>PopBack\<close>.  (\<^verbatim>\<open>++size_\<close> would need a
  block of \<open>2^64\<close> slots.)
\<close>

type_synonym 'a block = "'a option list"

text \<open>
  What the template parameter \<^verbatim>\<open>T\<close> contributes: \<^verbatim>\<open>sizeof(T)\<close>, the value of
  \<^verbatim>\<open>T()\<close>, which of its special members throw (and on which values), the state a move
  leaves in its source, and the two traits that \<^verbatim>\<open>SafeMemoryTransfer\<close> tests.
  \<open>bad_alloc n\<close> says that the call of \<^verbatim>\<open>operator new\<close> that \<^verbatim>\<open>Allocate(n)\<close> makes
  throws.  Destructors do not throw.
  Copy construction and copy assignment share \<open>copy_throws\<close>; move construction and
  move assignment share \<open>move_throws\<close>, which is overridden by the trait
  \<open>nothrow_move_constructible\<close>.
\<close>

record 'a elem_type =
  sizeof_T :: nat
  value_init :: 'a
  value_init_throws :: bool
  copy_throws :: "'a \<Rightarrow> bool"
  move_throws :: "'a \<Rightarrow> bool"
  moved_from :: "'a \<Rightarrow> 'a"
  nothrow_move_constructible :: bool
  copy_constructible :: bool
  bad_alloc :: "nat \<Rightarrow> bool"

definition move_raises :: "'a elem_type \<Rightarrow> 'a \<Rightarrow> bool" where
  "move_raises T x = (\<not> nothrow_move_constructible T \<and> move_throws T x)"

text \<open>
  An operation returns normally (\<open>Ok\<close>), lets an exception propagate (\<open>Thrown\<close>, with
  the state the caller can still observe), or breaks a contract: a failed \<^verbatim>\<open>assert\<close>,
  an access outside a block, reading, assigning to or destroying a slot that holds no
  object, or an invalid range handed to a standard algorithm (\<open>Violation\<close>).
\<close>

datatype ('e, 'a) outcome = Ok 'a | Thrown 'e | Violation

text \<open>The argument of a forwarding reference \<^verbatim>\<open>F&& value\<close>: an lvalue is copied, an
  rvalue is moved.\<close>

datatype 'a fwd = Lvalue 'a | Rvalue 'a

text \<open>The result of running \<^verbatim>\<open>T(std::forward<F>(value))\<close>: \<open>None\<close> when the
  constructor throws, the value of the new object otherwise.\<close>

fun construct_from :: "'a elem_type \<Rightarrow> 'a fwd \<Rightarrow> 'a option" where
  "construct_from T (Lvalue x) = (if copy_throws T x then None else Some x)"
| "construct_from T (Rvalue x) = (if move_raises T x then None else Some x)"

text \<open>
  The arguments \<^verbatim>\<open>Args&&... args\<close> of \<^verbatim>\<open>EmplaceBack\<close> and \<^verbatim>\<open>Emplace\<close> are
  references, and they may refer to elements of the vector itself: what
  \<^verbatim>\<open>T(std::forward<Args>(args)...)\<close> gives depends on the slots of the vector's block
  at the moment the constructor runs.  It is \<open>None\<close> when the constructor throws and the
  value of the new object otherwise.  The constructor does not write to the block (an
  argument that is moved from is not an element of the vector).  In the same way the
  argument \<^verbatim>\<open>F&& value\<close> of \<^verbatim>\<open>PushBack\<close> and \<^verbatim>\<open>Insert\<close> is read when the new
  element is constructed from it.
\<close>

type_synonym 'a ctor_args = "'a block \<Rightarrow> 'a option"

type_synonym 'a fwd_ref = "'a block \<Rightarrow> 'a fwd"

section \<open>The standard algorithms on raw memory\<close>

text \<open>\<^verbatim>\<open>std::destroy_at(b + i)\<close>: the slot must hold an object; \<open>None\<close> is the
  violation (a destructor does not throw).\<close>

definition destroy_at :: "'a block \<Rightarrow> nat \<Rightarrow> 'a block option" where
  "destroy_at b i = (if i < length b \<and> b ! i \<noteq> None then Some (b[i := None]) else None)"

text \<open>\<^verbatim>\<open>std::destroy_n(b + i, n)\<close>.\<close>

fun destroy_n :: "'a block \<Rightarrow> nat \<Rightarrow> nat \<Rightarrow> 'a block option" where
  "destroy_n b i 0 = Some b"
| "destroy_n b i (Suc n) =
     (if i < length b \<and> b ! i \<noteq> None then destroy_n (b[i := None]) (Suc i) n else None)"

text \<open>\<^verbatim>\<open>std::uninitialized_value_construct_n(b + i, n)\<close>: when a constructor throws, the
  objects already constructed are destroyed and the exception is rethrown.\<close>

fun uninitialized_value_construct_n ::
  "'a elem_type \<Rightarrow> 'a block \<Rightarrow> nat \<Rightarrow> nat \<Rightarrow> ('a block, 'a block) outcome" where
  "uninitialized_value_construct_n T b i 0 = Ok b"
| "uninitialized_value_construct_n T b i (Suc n) =
     (if i < length b then
        if value_init_throws T then Thrown b
        else (case uninitialized_value_construct_n T (b[i := Some (value_init T)]) (Suc i) n of
                Ok b' \<Rightarrow> Ok b'
              | Thrown b' \<Rightarrow> Thrown (b'[i := None])
              | Violation \<Rightarrow> Violation)
      else Violation)"

text \<open>\<^verbatim>\<open>std::uninitialized_copy_n(src + i, n, dst + j)\<close>, with the same clean-up.\<close>

fun uninitialized_copy_n ::
  "'a elem_type \<Rightarrow> 'a block \<Rightarrow> nat \<Rightarrow> nat \<Rightarrow> 'a block \<Rightarrow> nat \<Rightarrow> ('a block, 'a block) outcome" where
  "uninitialized_copy_n T src i 0 dst j = Ok dst"
| "uninitialized_copy_n T src i (Suc n) dst j =
     (if i < length src \<and> j < length dst then
        (case src ! i of
           None \<Rightarrow> Violation
         | Some x \<Rightarrow>
             if copy_throws T x then Thrown dst
             else (case uninitialized_copy_n T src (Suc i) n (dst[j := Some x]) (Suc j) of
                     Ok d \<Rightarrow> Ok d
                   | Thrown d \<Rightarrow> Thrown (d[j := None])
                   | Violation \<Rightarrow> Violation))
      else Violation)"

text \<open>\<^verbatim>\<open>std::uninitialized_move_n(src + i, n, dst + j)\<close>: each source object is left in
  its moved-from state; on an exception the objects constructed in \<open>dst\<close> are destroyed,
  the sources already moved stay moved-from.\<close>

fun uninitialized_move_n ::
  "'a elem_type \<Rightarrow> 'a block \<Rightarrow> nat \<Rightarrow> nat \<Rightarrow> 'a block \<Rightarrow> nat
   \<Rightarrow> ('a block \<times> 'a block, 'a block \<times> 'a block) outcome" where
  "uninitialized_move_n T src i 0 dst j = Ok (src, dst)"
| "uninitialized_move_n T src i (Suc n) dst j =
     (if i < length src \<and> j < length dst then
        (case src ! i of
           None \<Rightarrow> Violation
         | Some x \<Rightarrow>
             if move_raises T x then Thrown (src, dst)
             else (case uninitialized_move_n T (src[i := Some (moved_from T x)]) (Suc i) n
                          (dst[j := Some x]) (Suc j) of
                     Ok r \<Rightarrow> Ok r
                   | Thrown (s, d) \<Rightarrow> Thrown (s, d[j := None])
                   | Violation \<Rightarrow> Violation))
      else Violation)"

text \<open>\<^verbatim>\<open>std::copy_n(src + i, n, dst + j)\<close>: copy assignment onto live objects; nothing
  is undone when an assignment throws.\<close>

fun copy_n ::
  "'a elem_type \<Rightarrow> 'a block \<Rightarrow> nat \<Rightarrow> nat \<Rightarrow> 'a block \<Rightarrow> nat \<Rightarrow> ('a block, 'a block) outcome" where
  "copy_n T src i 0 dst j = Ok dst"
| "copy_n T src i (Suc n) dst j =
     (if i < length src \<and> j < length dst then
        (case (src ! i, dst ! j) of
           (Some x, Some y) \<Rightarrow>
             if copy_throws T x then Thrown dst
             else copy_n T src (Suc i) n (dst[j := Some x]) (Suc j)
         | _ \<Rightarrow> Violation)
      else Violation)"

text \<open>The loop of \<^verbatim>\<open>std::move(b + i, b + i + n, b + d)\<close>: move assignment, front to
  back, inside one block.\<close>

fun move_forward :: "'a elem_type \<Rightarrow> 'a block \<Rightarrow> nat \<Rightarrow> nat \<Rightarrow> nat \<Rightarrow> ('a block, 'a block) outcome" where
  "move_forward T b i 0 d = Ok b"
| "move_forward T b i (Suc n) d =
     (if i < length b \<and> d < length b then
        (case (b ! i, b ! d) of
           (Some x, Some y) \<Rightarrow>
             if move_raises T x then Thrown b
             else move_forward T (b[d := Some x, i := Some (moved_from T x)]) (Suc i) n (Suc d)
         | _ \<Rightarrow> Violation)
      else Violation)"

text \<open>\<^verbatim>\<open>std::move(b + first, b + stop, b + d)\<close>; \<open>[first, stop)\<close> must be a range.\<close>

definition std_move :: "'a elem_type \<Rightarrow> 'a block \<Rightarrow> nat \<Rightarrow> nat \<Rightarrow> nat \<Rightarrow> ('a block, 'a block) outcome" where
  "std_move T b first stop d =
     (if first \<le> stop then move_forward T b first (stop - first) d else Violation)"

text \<open>The loop of \<^verbatim>\<open>std::move_backward\<close>: the \<open>n\<close> objects that start at \<open>first\<close> are
  move-assigned, back to front, to the slots that end before \<open>d_last\<close>.\<close>

fun move_back :: "'a elem_type \<Rightarrow> 'a block \<Rightarrow> nat \<Rightarrow> nat \<Rightarrow> nat \<Rightarrow> ('a block, 'a block) outcome" where
  "move_back T b first 0 d_last = Ok b"
| "move_back T b first (Suc n) d_last =
     (if first + n < length b \<and> 0 < d_last \<and> d_last - 1 < length b then
        (case (b ! (first + n), b ! (d_last - 1)) of
           (Some x, Some y) \<Rightarrow>
             if move_raises T x then Thrown b
             else move_back T (b[d_last - 1 := Some x, first + n := Some (moved_from T x)])
                    first n (d_last - 1)
         | _ \<Rightarrow> Violation)
      else Violation)"

text \<open>\<^verbatim>\<open>std::move_backward(b + first, b + stop, b + d_last)\<close>; \<open>[first, stop)\<close> must
  be a range.\<close>

definition move_backward :: "'a elem_type \<Rightarrow> 'a block \<Rightarrow> nat \<Rightarrow> nat \<Rightarrow> nat \<Rightarrow> ('a block, 'a block) outcome" where
  "move_backward T b first stop d_last =
     (if first \<le> stop then move_back T b first (stop - first) d_last else Violation)"

section \<open>RawMemory\<close>

text \<open>The members \<^verbatim>\<open>buffer_\<close> and \<^verbatim>\<open>capacity_\<close>.\<close>

record 'a RawMemory =
  m_buffer :: "'a block option"
  m_capacity :: nat

text \<open>The slots behind \<^verbatim>\<open>buffer_\<close>: a null pointer has none.\<close>

definition cells :: "'a RawMemory \<Rightarrow> 'a block" where
  "cells m = (case m_buffer m of None \<Rightarrow> [] | Some b \<Rightarrow> b)"

text \<open>Writing through \<^verbatim>\<open>buffer_\<close>: the pointer and \<^verbatim>\<open>capacity_\<close> stay as they are.\<close>

definition with_cells :: "'a RawMemory \<Rightarrow> 'a block \<Rightarrow> 'a RawMemory" where
  "with_cells m b = (case m_buffer m of None \<Rightarrow> m | Some c \<Rightarrow> m\<lparr>m_buffer := Some b\<rparr>)"

text \<open>\<^verbatim>\<open>RawMemory() = default\<close>.\<close>

definition RawMemory_default :: "'a RawMemory" where
  "RawMemory_default = \<lparr>m_buffer = None, m_capacity = 0\<rparr>"

text \<open>The number of slots of a block of \<open>bytes\<close> bytes: the objects of type \<^verbatim>\<open>T\<close>
  that fit in it.\<close>

definition slots_in :: "'a elem_type \<Rightarrow> nat \<Rightarrow> nat" where
  "slots_in T bytes = bytes div sizeof_T T"

text \<open>\<^verbatim>\<open>Allocate(n)\<close>: \<^verbatim>\<open>operator new(n * sizeof(T))\<close>, the product computed in
  \<^verbatim>\<open>size_t\<close>; the block has the bytes that were asked for.  No call of
  \<^verbatim>\<open>operator new\<close> for \<open>n = 0\<close>.\<close>

definition Allocate :: "'a elem_type \<Rightarrow> nat \<Rightarrow> (unit, 'a block option) outcome" where
  "Allocate T n =
     (if n \<noteq> 0 then
        (if bad_alloc T n then Thrown ()
         else Ok (Some (replicate (slots_in T ((n * sizeof_T T) mod 2 ^ 64)) None)))
      else Ok None)"

text \<open>\<^verbatim>\<open>explicit RawMemory(size_t capacity)\<close>.\<close>

definition RawMemory_sized :: "'a elem_type \<Rightarrow> nat \<Rightarrow> (unit, 'a RawMemory) outcome" where
  "RawMemory_sized T capacity =
     (case Allocate T capacity of
        Ok p \<Rightarrow> Ok \<lparr>m_buffer = p, m_capacity = capacity\<rparr>
      | Thrown u \<Rightarrow> Thrown ()
      | Violation \<Rightarrow> Violation)"

text \<open>\<^verbatim>\<open>Swap(other)\<close>: the pair is (\<^verbatim>\<open>*this\<close>, \<^verbatim>\<open>other\<close>) afterwards.\<close>

definition RawMemory_Swap :: "'a RawMemory \<Rightarrow> 'a RawMemory \<Rightarrow> 'a RawMemory \<times> 'a RawMemory" where
  "RawMemory_Swap this other =
     (this\<lparr>m_buffer := m_buffer other, m_capacity := m_capacity other\<rparr>,
      other\<lparr>m_buffer := m_buffer this, m_capacity := m_capacity this\<rparr>)"

text \<open>\<^verbatim>\<open>RawMemory(RawMemory&& other)\<close>: the new object starts from the default member
  initialisers and swaps with \<open>other\<close>.  The pair is (new object, \<^verbatim>\<open>other\<close>).\<close>

definition RawMemory_move :: "'a RawMemory \<Rightarrow> 'a RawMemory \<times> 'a RawMemory" where
  "RawMemory_move other = RawMemory_Swap RawMemory_default other"

text \<open>\<^verbatim>\<open>operator=(RawMemory&& rhs)\<close> on two distinct objects (\<^verbatim>\<open>this != &rhs\<close>); on
  one object the operator changes nothing.  The pair is (\<^verbatim>\<open>*this\<close>, \<^verbatim>\<open>rhs\<close>).\<close>

definition RawMemory_move_assign :: "'a RawMemory \<Rightarrow> 'a RawMemory \<Rightarrow> 'a RawMemory \<times> 'a RawMemory" where
  "RawMemory_move_assign this rhs = RawMemory_Swap this rhs"

text \<open>\<^verbatim>\<open>operator+(offset)\<close> with its \<^verbatim>\<open>assert\<close>: the offset, or \<open>None\<close> when the assertion
  fails.\<close>

definition RawMemory_plus :: "'a RawMemory \<Rightarrow> nat \<Rightarrow> nat option" where
  "RawMemory_plus m offset = (if offset \<le> m_capacity m then Some offset else None)"

text \<open>\<^verbatim>\<open>operator[](index)\<close> with its \<^verbatim>\<open>assert\<close>: the index of the slot, or \<open>None\<close> when
  the assertion fails.\<close>

definition RawMemory_at :: "'a RawMemory \<Rightarrow> nat \<Rightarrow> nat option" where
  "RawMemory_at m index = (if index < m_capacity m then Some index else None)"

text \<open>A block is well formed when \<^verbatim>\<open>capacity_\<close> is the number of its slots and the
  pointer is null exactly for capacity 0.\<close>

definition raw_ok :: "'a RawMemory \<Rightarrow> bool" where
  "raw_ok m = (length (cells m) = m_capacity m \<and> (m_buffer m = None) = (m_capacity m = 0))"

section \<open>Vector\<close>

text \<open>The members \<^verbatim>\<open>data_\<close> and \<^verbatim>\<open>size_\<close>.\<close>

record 'a Vector =
  m_data :: "'a RawMemory"
  m_size :: nat

definition Size :: "'a Vector \<Rightarrow> nat" where
  "Size v = m_size v"

definition Capacity :: "'a Vector \<Rightarrow> nat" where
  "Capacity v = m_capacity (m_data v)"

text \<open>The slots of the vector's block, and the vector with its slots overwritten.\<close>

definition slots :: "'a Vector \<Rightarrow> 'a block" where
  "slots v = cells (m_data v)"

definition with_slots :: "'a Vector \<Rightarrow> 'a block \<Rightarrow> 'a Vector" where
  "with_slots v b = v\<lparr>m_data := with_cells (m_data v) b\<rparr>"

text \<open>\<^verbatim>\<open>Vector() = default\<close>.\<close>

definition Vector_default :: "'a Vector" where
  "Vector_default = \<lparr>m_data = RawMemory_default, m_size = 0\<rparr>"

text \<open>\<^verbatim>\<open>explicit Vector(size_t size)\<close>.  When the constructor throws there is no
  vector; \<open>Thrown\<close> carries the slots of the block at the moment \<^verbatim>\<open>~RawMemory\<close>
  releases it (no slots when the allocation itself failed).\<close>

definition Vector_sized :: "'a elem_type \<Rightarrow> nat \<Rightarrow> ('a block, 'a Vector) outcome" where
  "Vector_sized T sz =
     (case RawMemory_sized T sz of
        Violation \<Rightarrow> Violation
      | Thrown u \<Rightarrow> Thrown []
      | Ok d \<Rightarrow>
          (case uninitialized_value_construct_n T (cells d) 0 sz of
             Violation \<Rightarrow> Violation
           | Thrown b \<Rightarrow> Thrown b
           | Ok b \<Rightarrow> Ok \<lparr>m_data = with_cells d b, m_size = sz\<rparr>))"

text \<open>\<^verbatim>\<open>Vector(const Vector& other)\<close>.\<close>

definition Vector_copy :: "'a elem_type \<Rightarrow> 'a Vector \<Rightarrow> ('a block, 'a Vector) outcome" where
  "Vector_copy T other =
     (case RawMemory_sized T (m_size other) of
        Violation \<Rightarrow> Violation
      | Thrown u \<Rightarrow> Thrown []
      | Ok d \<Rightarrow>
          (case uninitialized_copy_n T (slots other) 0 (m_size other) (cells d) 0 of
             Violation \<Rightarrow> Violation
           | Thrown b \<Rightarrow> Thrown b
           | Ok b \<Rightarrow> Ok \<lparr>m_data = with_cells d b, m_size = m_size other\<rparr>))"

text \<open>\<^verbatim>\<open>~Vector()\<close> followed by \<^verbatim>\<open>~RawMemory()\<close>: the slots of the block at the moment
  it is released, or \<open>None\<close> for a violation.\<close>

definition Vector_destroy :: "'a Vector \<Rightarrow> 'a block option" where
  "Vector_destroy v = destroy_n (slots v) 0 (m_size v)"

text \<open>\<^verbatim>\<open>Vector(Vector&& other)\<close>: the pair is (new vector, \<^verbatim>\<open>other\<close>).\<close>

definition Vector_move :: "'a Vector \<Rightarrow> 'a Vector \<times> 'a Vector" where
  "Vector_move other =
     (case RawMemory_move (m_data other) of
        (d, od) \<Rightarrow> (\<lparr>m_data = d, m_size = m_size other\<rparr>, other\<lparr>m_data := od, m_size := 0\<rparr>))"

text \<open>\<^verbatim>\<open>Swap(other)\<close>: the pair is (\<^verbatim>\<open>*this\<close>, \<^verbatim>\<open>other\<close>).\<close>

definition Vector_Swap :: "'a Vector \<Rightarrow> 'a Vector \<Rightarrow> 'a Vector \<times> 'a Vector" where
  "Vector_Swap this other =
     (case RawMemory_Swap (m_data this) (m_data other) of
        (d, od) \<Rightarrow> (this\<lparr>m_data := d, m_size := m_size other\<rparr>,
                    other\<lparr>m_data := od, m_size := m_size this\<rparr>))"

text \<open>\<^verbatim>\<open>operator=(const Vector& rhs)\<close> on two distinct objects (\<^verbatim>\<open>this != &rhs\<close>);
  \<open>rhs\<close> is not written.  \<open>Thrown\<close> carries \<^verbatim>\<open>*this\<close> as the exception leaves it
  and the slots of the temporary block when it is released.\<close>

definition Vector_copy_assign ::
  "'a elem_type \<Rightarrow> 'a Vector \<Rightarrow> 'a Vector \<Rightarrow> ('a Vector \<times> 'a block, 'a Vector) outcome" where
  "Vector_copy_assign T this rhs =
     (if m_size rhs > m_capacity (m_data this) then
        (case Vector_copy T rhs of
           Violation \<Rightarrow> Violation
         | Thrown b \<Rightarrow> Thrown (this, b)
         | Ok rhs_copy \<Rightarrow>
             (case Vector_Swap this rhs_copy of
                (this', rhs_copy') \<Rightarrow>
                  (case Vector_destroy rhs_copy' of
                     None \<Rightarrow> Violation
                   | Some released \<Rightarrow> Ok this')))
      else if m_size rhs < m_size this then
        (case copy_n T (slots rhs) 0 (m_size rhs) (slots this) 0 of
           Violation \<Rightarrow> Violation
         | Thrown b \<Rightarrow> Thrown (with_slots this b, [])
         | Ok b \<Rightarrow>
             (case destroy_n b (m_size rhs) (m_size this - m_size rhs) of
                None \<Rightarrow> Violation
              | Some b' \<Rightarrow> Ok ((with_slots this b')\<lparr>m_size := m_size rhs\<rparr>)))
      else
        (case copy_n T (slots rhs) 0 (m_size this) (slots this) 0 of
           Violation \<Rightarrow> Violation
         | Thrown b \<Rightarrow> Thrown (with_slots this b, [])
         | Ok b \<Rightarrow>
             (case uninitialized_copy_n T (slots rhs) (m_size this) (m_size rhs - m_size this)
                     b (m_size this) of
                Violation \<Rightarrow> Violation
              | Thrown b' \<Rightarrow> Thrown (with_slots this b', [])
              | Ok b' \<Rightarrow> Ok ((with_slots this b')\<lparr>m_size := m_size rhs\<rparr>))))"

text \<open>\<^verbatim>\<open>operator=(Vector&& rhs)\<close> on two distinct objects; the pair is
  (\<^verbatim>\<open>*this\<close>, \<^verbatim>\<open>rhs\<close>).\<close>

definition Vector_move_assign :: "'a Vector \<Rightarrow> 'a Vector \<Rightarrow> 'a Vector \<times> 'a Vector" where
  "Vector_move_assign this rhs =
     (case RawMemory_move_assign (m_data this) (m_data rhs) of
        (d, rd) \<Rightarrow> (this\<lparr>m_data := d, m_size := m_size rhs\<rparr>, rhs\<lparr>m_data := rd, m_size := 0\<rparr>))"

text \<open>\<^verbatim>\<open>operator[](index)\<close>: the value of the object the reference denotes.\<close>

definition Vector_at :: "'a Vector \<Rightarrow> nat \<Rightarrow> 'a option" where
  "Vector_at v index =
     (if index < m_size v then
        (case RawMemory_at (m_data v) index of
           None \<Rightarrow> None
         | Some k \<Rightarrow> if k < length (slots v) then slots v ! k else None)
      else None)"

text \<open>\<^verbatim>\<open>SafeMemoryTransfer(begin, size, new_address_begin)\<close>: \<open>begin\<close> is an offset into
  the block \<open>src\<close>, \<open>new_address_begin\<close> an offset into \<open>dst\<close>; both blocks are
  returned.\<close>

definition SafeMemoryTransfer ::
  "'a elem_type \<Rightarrow> 'a block \<Rightarrow> nat \<Rightarrow> nat \<Rightarrow> 'a block \<Rightarrow> nat
   \<Rightarrow> ('a block \<times> 'a block, 'a block \<times> 'a block) outcome" where
  "SafeMemoryTransfer T src begin sz dst new_address_begin =
     (if nothrow_move_constructible T \<or> \<not> copy_constructible T then
        uninitialized_move_n T src begin sz dst new_address_begin
      else
        (case uninitialized_copy_n T src begin sz dst new_address_begin of
           Ok d \<Rightarrow> Ok (src, d)
         | Thrown d \<Rightarrow> Thrown (src, d)
         | Violation \<Rightarrow> Violation))"

text \<open>\<^verbatim>\<open>FullSafeMemoryTransfer(begin, size, new_data, new_address_begin)\<close>: the result is
  the vector and \<open>new_data\<close> (passed by reference) afterwards.\<close>

definition FullSafeMemoryTransfer ::
  "'a elem_type \<Rightarrow> 'a Vector \<Rightarrow> nat \<Rightarrow> nat \<Rightarrow> 'a RawMemory \<Rightarrow> nat
   \<Rightarrow> ('a Vector \<times> 'a RawMemory, 'a Vector \<times> 'a RawMemory) outcome" where
  "FullSafeMemoryTransfer T v begin sz new_data new_address_begin =
     (case SafeMemoryTransfer T (slots v) begin sz (cells new_data) new_address_begin of
        Violation \<Rightarrow> Violation
      | Thrown (src, dst) \<Rightarrow> Thrown (with_slots v src, with_cells new_data dst)
      | Ok (src, dst) \<Rightarrow>
          (case destroy_n src begin sz of
             None \<Rightarrow> Violation
           | Some src' \<Rightarrow>
               (case RawMemory_Swap (with_cells (m_data v) src') (with_cells new_data dst) of
                  (d, nd) \<Rightarrow> Ok (v\<lparr>m_data := d\<rparr>, nd))))"

text \<open>\<^verbatim>\<open>Reserve(new_capacity)\<close>.\<close>

definition Reserve ::
  "'a elem_type \<Rightarrow> 'a Vector \<Rightarrow> nat \<Rightarrow> ('a Vector \<times> 'a block, 'a Vector) outcome" where
  "Reserve T v new_capacity =
     (if new_capacity \<le> m_capacity (m_data v) then Ok v
      else
        (case RawMemory_sized T new_capacity of
           Violation \<Rightarrow> Violation
         | Thrown u \<Rightarrow> Thrown (v, [])
         | Ok new_data \<Rightarrow>
             (case FullSafeMemoryTransfer T v 0 (Size v) new_data 0 of
                Violation \<Rightarrow> Violation
              | Thrown (v', nd) \<Rightarrow> Thrown (v', cells nd)
              | Ok (v', nd) \<Rightarrow> Ok v')))"

text \<open>The loop of \<^verbatim>\<open>Resize\<close>: \<^verbatim>\<open>while (new_size > Capacity()) Reserve(capacity * 2);\<close>
  with the local \<^verbatim>\<open>capacity\<close>, which the loop does not assign.  \<open>None\<close> is a loop that
  never ends.\<close>

partial_function (option) Resize_loop ::
  "'a elem_type \<Rightarrow> 'a Vector \<Rightarrow> nat \<Rightarrow> nat \<Rightarrow> ('a Vector \<times> 'a block, 'a Vector) outcome option" where
  "Resize_loop T v new_size capacity =
     (if new_size > Capacity v then
        (case Reserve T v ((capacity * 2) mod 2 ^ 64) of
           Violation \<Rightarrow> Some Violation
         | Thrown e \<Rightarrow> Some (Thrown e)
         | Ok v' \<Rightarrow> Resize_loop T v' new_size capacity)
      else Some (Ok v))"

text \<open>\<^verbatim>\<open>Resize(new_size)\<close>.\<close>

definition Resize ::
  "'a elem_type \<Rightarrow> 'a Vector \<Rightarrow> nat \<Rightarrow> ('a Vector \<times> 'a block, 'a Vector) outcome option" where
  "Resize T v new_size =
     (if new_size < m_size v then
        (case destroy_n (slots v) new_size (Size v - new_size) of
           None \<Rightarrow> Some Violation
         | Some b \<Rightarrow> Some (Ok ((with_slots v b)\<lparr>m_size := new_size\<rparr>)))
      else if new_size > m_size v then
        (case Resize_loop T v new_size (if Size v = 0 then 1 else Capacity v) of
           None \<Rightarrow> None
         | Some Violation \<Rightarrow> Some Violation
         | Some (Thrown e) \<Rightarrow> Some (Thrown e)
         | Some (Ok v') \<Rightarrow>
             (case uninitialized_value_construct_n T (slots v') (m_size v') (new_size - m_size v') of
                Violation \<Rightarrow> Some Violation
              | Thrown b \<Rightarrow> Some (Thrown (with_slots v' b, []))
              | Ok b \<Rightarrow> Some (Ok ((with_slots v' b)\<lparr>m_size := new_size\<rparr>))))
      else Some (Ok (v\<lparr>m_size := new_size\<rparr>)))"

text \<open>\<^verbatim>\<open>PopBack()\<close>: \<^verbatim>\<open>std::destroy_at(data_.GetAddress() + size_); --size_;\<close>.\<close>

definition PopBack :: "'a Vector \<Rightarrow> 'a Vector option" where
  "PopBack v =
     (case destroy_at (slots v) (m_size v) of
        None \<Rightarrow> None
      | Some b \<Rightarrow>
          Some ((with_slots v b)\<lparr>m_size := (if m_size v = 0 then 2 ^ 64 - 1 else m_size v - 1)\<rparr>))"

text \<open>\<^verbatim>\<open>EmplaceBack(args...)\<close>: in both branches the new element is constructed while the
  block of the vector is as it was.  The result is the vector and the index of the slot
  the returned reference denotes.\<close>

definition EmplaceBack ::
  "'a elem_type \<Rightarrow> 'a Vector \<Rightarrow> 'a ctor_args \<Rightarrow> ('a Vector \<times> 'a block, 'a Vector \<times> nat) outcome" where
  "EmplaceBack T v args =
     (case
        (if Size v < Capacity v then
           (case RawMemory_plus (m_data v) (Size v) of
              None \<Rightarrow> Violation
            | Some k \<Rightarrow>
                (case args (slots v) of
                   None \<Rightarrow> Thrown (v, [])
                 | Some x \<Rightarrow>
                     if k < length (slots v) then Ok (with_slots v ((slots v)[k := Some x]))
                     else Violation))
         else
           (case RawMemory_sized T (if m_size v = 0 then 1 else (Capacity v * 2) mod 2 ^ 64) of
              Violation \<Rightarrow> Violation
            | Thrown u \<Rightarrow> Thrown (v, [])
            | Ok new_data \<Rightarrow>
                (case RawMemory_plus new_data (Size v) of
                   None \<Rightarrow> Violation
                 | Some k \<Rightarrow>
                     (case args (slots v) of
                        None \<Rightarrow> Thrown (v, cells new_data)
                      | Some x \<Rightarrow>
                          if k < length (cells new_data) then
                            (case FullSafeMemoryTransfer T v 0 (Size v)
                                    (with_cells new_data ((cells new_data)[k := Some x])) 0 of
                               Violation \<Rightarrow> Violation
                             | Thrown (v', nd) \<Rightarrow> Thrown (v', cells nd)
                             | Ok (v', nd) \<Rightarrow> Ok v')
                          else Violation))))
      of
        Violation \<Rightarrow> Violation
      | Thrown e \<Rightarrow> Thrown e
      | Ok v' \<Rightarrow>
          (case RawMemory_at (m_data v') (m_size v' + 1 - 1) of
             None \<Rightarrow> Violation
           | Some k \<Rightarrow> Ok (v'\<lparr>m_size := m_size v' + 1\<rparr>, k)))"

text \<open>\<^verbatim>\<open>PushBack(F&& value)\<close>.\<close>

definition PushBack ::
  "'a elem_type \<Rightarrow> 'a Vector \<Rightarrow> 'a fwd_ref \<Rightarrow> ('a Vector \<times> 'a block, 'a Vector) outcome" where
  "PushBack T v val =
     (case EmplaceBack T v (\<lambda>b. construct_from T (val b)) of
        Violation \<Rightarrow> Violation
      | Thrown e \<Rightarrow> Thrown e
      | Ok (v', k) \<Rightarrow> Ok v')"

text \<open>The branch of \<^verbatim>\<open>Emplace\<close> with spare capacity (\<^verbatim>\<open>Size() < Capacity()\<close>):
  \<^verbatim>\<open>new (end()) T(std::forward<T>(*(end() - 1)))\<close> move-constructs the last element
  into the slot at \<^verbatim>\<open>end()\<close> (\<^verbatim>\<open>end() - 1\<close> is before the block when the vector is
  empty), \<^verbatim>\<open>std::move_backward(begin() + pos_ind, end() - 1, end())\<close> shifts, and
  \<^verbatim>\<open>data_[pos_ind] = T(args...)\<close> constructs the new value from the block as the shift
  has left it and move-assigns it.\<close>

definition Emplace_shift ::
  "'a elem_type \<Rightarrow> 'a Vector \<Rightarrow> nat \<Rightarrow> 'a ctor_args \<Rightarrow> ('a Vector \<times> 'a block, 'a Vector) outcome" where
  "Emplace_shift T v pos_ind args =
     (if Size v = 0 then Violation
      else if Size v < length (slots v) then
        (case slots v ! (Size v - 1) of
           None \<Rightarrow> Violation
         | Some x \<Rightarrow>
             if move_raises T x then Thrown (v, [])
             else
               (case move_backward T
                       ((slots v)[Size v - 1 := Some (moved_from T x), Size v := Some x])
                       pos_ind (Size v - 1) (Size v) of
                  Violation \<Rightarrow> Violation
                | Thrown b \<Rightarrow> Thrown (with_slots v b, [])
                | Ok b \<Rightarrow>
                    (case args b of
                       None \<Rightarrow> Thrown (with_slots v b, [])
                     | Some y \<Rightarrow>
                         (case RawMemory_at (m_data v) pos_ind of
                            None \<Rightarrow> Violation
                          | Some k \<Rightarrow>
                              if k < length b \<and> b ! k \<noteq> None then
                                if move_raises T y then Thrown (with_slots v b, [])
                                else Ok (with_slots v (b[k := Some y]))
                              else Violation))))
      else Violation)"

text \<open>The branch of \<^verbatim>\<open>Emplace\<close> that reallocates, with its two \<^verbatim>\<open>try\<close> blocks; the
  new element is constructed first, while the block of the vector is as it was.\<close>

definition Emplace_grow ::
  "'a elem_type \<Rightarrow> 'a Vector \<Rightarrow> nat \<Rightarrow> 'a ctor_args \<Rightarrow> ('a Vector \<times> 'a block, 'a Vector) outcome" where
  "Emplace_grow T v pos_ind args =
     (case RawMemory_sized T (if Size v = 0 then 1 else (Capacity v * 2) mod 2 ^ 64) of
        Violation \<Rightarrow> Violation
      | Thrown u \<Rightarrow> Thrown (v, [])
      | Ok new_data \<Rightarrow>
          (case args (slots v) of
             None \<Rightarrow> Thrown (v, cells new_data)
           | Some y \<Rightarrow>
               if pos_ind < length (cells new_data) then
                 (case SafeMemoryTransfer T (slots v) 0 pos_ind
                         ((cells new_data)[pos_ind := Some y]) 0 of
                    Violation \<Rightarrow> Violation
                  | Thrown (src, dst) \<Rightarrow>
                      (case destroy_at dst pos_ind of
                         None \<Rightarrow> Violation
                       | Some dst' \<Rightarrow> Thrown (with_slots v src, dst'))
                  | Ok (src, dst) \<Rightarrow>
                      (case SafeMemoryTransfer T src pos_ind (Size v - 0 - pos_ind)
                              dst (pos_ind + 1) of
                         Violation \<Rightarrow> Violation
                       | Thrown (src', dst') \<Rightarrow>
                           (case destroy_n dst' 0 (pos_ind + 1) of
                              None \<Rightarrow> Violation
                            | Some dst'' \<Rightarrow> Thrown (with_slots v src', dst''))
                       | Ok (src', dst') \<Rightarrow>
                           (case destroy_n src' 0 (Size v) of
                              None \<Rightarrow> Violation
                            | Some src'' \<Rightarrow>
                                (case RawMemory_Swap (with_cells (m_data v) src'')
                                        (with_cells new_data dst') of
                                   (d, nd) \<Rightarrow> Ok (v\<lparr>m_data := d\<rparr>)))))
               else Violation))"

text \<open>\<^verbatim>\<open>Emplace(pos, args...)\<close>: \<open>pos_ind\<close> is \<^verbatim>\<open>pos - cbegin()\<close> (a position before
  \<^verbatim>\<open>cbegin()\<close> has no offset); the result is the vector and the offset of the returned
  iterator.\<close>

definition Emplace ::
  "'a elem_type \<Rightarrow> 'a Vector \<Rightarrow> nat \<Rightarrow> 'a ctor_args \<Rightarrow> ('a Vector \<times> 'a block, 'a Vector \<times> nat) outcome" where
  "Emplace T v pos_ind args =
     (if pos_ind \<le> Size v then
        (case (if Size v < Capacity v then Emplace_shift T v pos_ind args
               else Emplace_grow T v pos_ind args) of
           Violation \<Rightarrow> Violation
         | Thrown e \<Rightarrow> Thrown e
         | Ok v' \<Rightarrow> Ok (v'\<lparr>m_size := m_size v' + 1\<rparr>, 0 + pos_ind))
      else Violation)"

text \<open>\<^verbatim>\<open>Insert(pos, F&& value)\<close>.\<close>

definition Insert ::
  "'a elem_type \<Rightarrow> 'a Vector \<Rightarrow> nat \<Rightarrow> 'a fwd_ref \<Rightarrow> ('a Vector \<times> 'a block, 'a Vector \<times> nat) outcome" where
  "Insert T v pos_ind val = Emplace T v pos_ind (\<lambda>b. construct_from T (val b))"

text \<open>\<^verbatim>\<open>Erase(pos)\<close>: \<open>i\<close> is \<^verbatim>\<open>pos - cbegin()\<close>; the result is the vector and the offset
  of the returned iterator.\<close>

definition Erase ::
  "'a elem_type \<Rightarrow> 'a Vector \<Rightarrow> nat \<Rightarrow> ('a Vector \<times> 'a block, 'a Vector \<times> nat) outcome" where
  "Erase T v i =
     (if i < Size v then
        (case std_move T (slots v) (0 + i + 1) (0 + Size v) (0 + i) of
           Violation \<Rightarrow> Violation
         | Thrown b \<Rightarrow> Thrown (with_slots v b, [])
         | Ok b \<Rightarrow>
             (case destroy_at b (Size v - 1) of
                None \<Rightarrow> Violation
              | Some b' \<Rightarrow> Ok ((with_slots v b')\<lparr>m_size := m_size v - 1\<rparr>, 0 + i)))
      else Violation)"

section \<open>The state invariant and the abstraction\<close>

text \<open>The invariant of the data model: the block is well formed, \<open>size \<le> capacity\<close>,
  the first \<open>size\<close> slots hold objects and all others are raw.\<close>

definition vector_inv :: "'a Vector \<Rightarrow> bool" where
  "vector_inv v =
     (raw_ok (m_data v) \<and> m_size v \<le> m_capacity (m_data v) \<and>
      list_all (\<lambda>s. s \<noteq> None) (take (m_size v) (slots v)) \<and>
      list_all (\<lambda>s. s = None) (drop (m_size v) (slots v)))"

text \<open>The sequence of values a vector holds: the objects in its first \<open>size\<close> slots.\<close>

definition elems :: "'a Vector \<Rightarrow> 'a list" where
  "elems v = map the (take (m_size v) (slots v))"

text \<open>A vector as the public interface can build it: \<open>xs\<close> in a block of
  \<open>length xs + spare\<close> slots.\<close>

definition mk_vector :: "'a list \<Rightarrow> nat \<Rightarrow> 'a Vector" where
  "mk_vector xs spare =
     \<lparr>m_data = \<lparr>m_buffer = (if length xs + spare = 0 then None
                            else Some (map Some xs @ replicate spare None)),
               m_capacity = length xs + spare\<rparr>,
      m_size = length xs\<rparr>"

section \<open>Auxiliary notions for the statements\<close>

text \<open>The test of \<^verbatim>\<open>SafeMemoryTransfer\<close>: elements are transferred by move when the type
  is nothrow-move-constructible or cannot be copied, by copy otherwise.\<close>

definition uses_move :: "'a elem_type \<Rightarrow> bool" where
  "uses_move T = (nothrow_move_constructible T \<or> \<not> copy_constructible T)"

text \<open>Whether transferring the elements \<open>xs\<close> to another block throws.\<close>

definition transfer_throws :: "'a elem_type \<Rightarrow> 'a list \<Rightarrow> bool" where
  "transfer_throws T xs =
     (if uses_move T then list_ex (move_raises T) xs else list_ex (copy_throws T) xs)"

text \<open>The values a transfer of \<open>xs\<close> leaves in the source: a copy leaves them as they
  were, a move leaves every element it reached in its moved-from state.\<close>

definition left_behind :: "'a elem_type \<Rightarrow> 'a list \<Rightarrow> 'a list" where
  "left_behind T xs =
     (if uses_move T
      then map (moved_from T) (takeWhile (\<lambda>x. \<not> move_raises T x) xs)
             @ dropWhile (\<lambda>x. \<not> move_raises T x) xs
      else xs)"

text \<open>The capacity \<^verbatim>\<open>EmplaceBack\<close> and \<^verbatim>\<open>Emplace\<close> ask for when the block of \<open>n\<close> slots
  is full.\<close>

definition grown :: "nat \<Rightarrow> nat" where
  "grown n = (if n = 0 then 1 else (n * 2) mod 2 ^ 64)"

text \<open>The number of slots of the block that \<^verbatim>\<open>Allocate(n)\<close> obtains.\<close>

definition block_slots :: "'a elem_type \<Rightarrow> nat \<Rightarrow> nat" where
  "block_slots T n = slots_in T ((n * sizeof_T T) mod 2 ^ 64)"

text \<open>Whether \<^verbatim>\<open>n * sizeof(T)\<close> is computed in \<^verbatim>\<open>size_t\<close> without wrap-around
  (\<^verbatim>\<open>sizeof(T)\<close> is never 0): then that block has \<open>n\<close> slots.\<close>

definition fits :: "'a elem_type \<Rightarrow> nat \<Rightarrow> bool" where
  "fits T n = (0 < sizeof_T T \<and> n * sizeof_T T < 2 ^ 64)"

text \<open>The value of the object a forwarding reference denotes.\<close>

fun fwd_value :: "'a fwd \<Rightarrow> 'a" where
  "fwd_value (Lvalue x) = x"
| "fwd_value (Rvalue x) = x"

text \<open>An element type like \<^verbatim>\<open>int\<close> (4 bytes): nothing throws, a move leaves the value.\<close>

definition plain :: "nat elem_type" where
  "plain = \<lparr>sizeof_T = 4, value_init = 0, value_init_throws = False, copy_throws = (\<lambda>x. False),
            move_throws = (\<lambda>x. False), moved_from = (\<lambda>x. x),
            nothrow_move_constructible = True, copy_constructible = True,
            bad_alloc = (\<lambda>n. False)\<rparr>"

text \<open>An element type that cannot be copied and whose move constructor throws on the
  value 2; a move leaves 0 in its source.\<close>

definition move_only :: "nat elem_type" where
  "move_only = \<lparr>sizeof_T = 8, value_init = 0, value_init_throws = False, copy_throws = (\<lambda>x. False),
                move_throws = (\<lambda>x. x = 2), moved_from = (\<lambda>x. 0),
                nothrow_move_constructible = False, copy_constructible = False,
                bad_alloc = (\<lambda>n. False)\<rparr>"

text \<open>An element type whose copy constructor throws on the value 1 and whose move
  constructor is not \<^verbatim>\<open>noexcept\<close>, so that elements are transferred by copy.\<close>

definition throwing_copy :: "nat elem_type" where
  "throwing_copy = \<lparr>sizeof_T = 8, value_init = 0, value_init_throws = False, copy_throws = (\<lambda>x. x = 1),
                    move_throws = (\<lambda>x. False), moved_from = (\<lambda>x. x),
                    nothrow_move_constructible = False, copy_constructible = True,
                    bad_alloc = (\<lambda>n. False)\<rparr>"

text \<open>\<^verbatim>\<open>v.Erase(v.Insert(pos, value))\<close>.\<close>

definition insert_then_erase ::
  "'a elem_type \<Rightarrow> 'a Vector \<Rightarrow> nat \<Rightarrow> 'a fwd_ref \<Rightarrow> ('a Vector \<times> 'a block, 'a Vector \<times> nat) outcome" where
  "insert_then_erase T v pos_ind val =
     (case Insert T v pos_ind val of
        Violation \<Rightarrow> Violation
      | Thrown e \<Rightarrow> Thrown e
      | Ok (v', p) \<Rightarrow> Erase T v' p)"

text \<open>A run of \<^verbatim>\<open>EmplaceBack\<close> calls, one for each element of the list, as long as they
  return; the arguments do not refer to the vector (each is what the constructor gives).\<close>

fun EmplaceBack_all ::
  "'a elem_type \<Rightarrow> 'a Vector \<Rightarrow> 'a option list \<Rightarrow> ('a Vector \<times> 'a block, 'a Vector) outcome" where
  "EmplaceBack_all T v [] = Ok v"
| "EmplaceBack_all T v (a # as) =
     (case EmplaceBack T v (\<lambda>b. a) of
        Violation \<Rightarrow> Violation
      | Thrown e \<Rightarrow> Thrown e
      | Ok (v', k) \<Rightarrow> EmplaceBack_all T v' as)"

text \<open>A run of \<^verbatim>\<open>PushBack\<close> calls, one for each value of the list, as long as they
  return; the values are not elements of the vector.\<close>

fun PushBack_all ::
  "'a elem_type \<Rightarrow> 'a Vector \<Rightarrow> 'a fwd list \<Rightarrow> ('a Vector \<times> 'a block, 'a Vector) outcome" where
  "PushBack_all T v [] = Ok v"
| "PushBack_all T v (val # vals) =
     (case PushBack T v (\<lambda>b. val) of
        Violation \<Rightarrow> Violation
      | Thrown e \<Rightarrow> Thrown e
      | Ok v' \<Rightarrow> PushBack_all T v' vals)"

text \<open>From the words of the specification (growth doubling, 0, 1, 2, 4, 8, ...): the
  capacity after \<open>n\<close> appends to an empty sequence of capacity 0, which becomes 1 when the
  block is full at capacity 0 and doubles whenever it is full otherwise.\<close>

fun capacity_after :: "nat \<Rightarrow> nat" where
  "capacity_after 0 = 0"
| "capacity_after (Suc n) =
     (if n < capacity_after n then capacity_after n
      else if capacity_after n = 0 then 1 else 2 * capacity_after n)"

section \<open>Vectors that satisfy the invariant\<close>

lemma all_live_map_the: "list_all (\<lambda>s. s \<noteq> None) b \<Longrightarrow> map Some (map the b) = b"
  by (induction b) auto

lemma all_raw_replicate: "list_all (\<lambda>s. s = None) b \<Longrightarrow> b = replicate (length b) None"
  by (induction b) auto

lemma slots_mk_vector [simp]: "slots (mk_vector xs k) = map Some xs @ replicate k None"
  by (simp add: slots_def cells_def mk_vector_def)

lemma Size_mk_vector [simp]: "Size (mk_vector xs k) = length xs" "m_size (mk_vector xs k) = length xs"
  by (simp_all add: Size_def mk_vector_def)

lemma Capacity_mk_vector [simp]: "Capacity (mk_vector xs k) = length xs + k"
  "m_capacity (m_data (mk_vector xs k)) = length xs + k"
  by (simp_all add: Capacity_def mk_vector_def)

lemma elems_mk_vector [simp]: "elems (mk_vector xs k) = xs"
  by (simp add: elems_def comp_def)

lemma vector_inv_mk_vector [simp]: "vector_inv (mk_vector xs k)"
  by (simp add: vector_inv_def raw_ok_def list_all_iff)
     (simp add: mk_vector_def cells_def)

lemma with_slots_mk_vector:
  "length b = length xs + k \<Longrightarrow> with_slots (mk_vector xs k) b =
     \<lparr>m_data = \<lparr>m_buffer = (if length xs + k = 0 then None else Some b), m_capacity = length xs + k\<rparr>,
      m_size = length xs\<rparr>"
  by (simp add: with_slots_def with_cells_def mk_vector_def)

lemma vector_inv_repr:
  assumes "vector_inv v"
  shows "v = mk_vector (elems v) (Capacity v - Size v)"
proof -
  obtain B c n where v: "v = \<lparr>m_data = \<lparr>m_buffer = B, m_capacity = c\<rparr>, m_size = n\<rparr>"
    by (cases v, cases "m_data v") auto
  let ?b = "cells \<lparr>m_buffer = B, m_capacity = c\<rparr>"
  from assms v have len: "length ?b = c" and nul: "(B = None) = (c = 0)" and le: "n \<le> c"
    and live: "list_all (\<lambda>s. s \<noteq> None) (take n ?b)"
    and raw: "list_all (\<lambda>s. s = None) (drop n ?b)"
    by (simp_all add: vector_inv_def raw_ok_def slots_def)
  have "?b = take n ?b @ drop n ?b" by simp
  also have "take n ?b = map Some (map the (take n ?b))"
    using all_live_map_the [OF live] by simp
  also have "drop n ?b = replicate (c - n) None"
    using all_raw_replicate [OF raw] len by simp
  finally have b: "?b = map Some (map the (take n ?b)) @ replicate (c - n) None" .
  have ln: "length (map the (take n ?b)) = n" using len le by simp
  show ?thesis
  proof (cases B)
    case None
    with nul le have "c = 0" "n = 0" by auto
    with None v show ?thesis
      by (simp add: mk_vector_def elems_def Capacity_def Size_def slots_def cells_def)
  next
    case (Some b0)
    with nul have c: "c \<noteq> 0" by auto
    from Some have "?b = b0" by (simp add: cells_def)
    with b have "b0 = map Some (map the (take n b0)) @ replicate (c - n) None" by simp
    with Some v c le ln show ?thesis
      by (simp add: mk_vector_def elems_def Capacity_def Size_def slots_def cells_def)
  qed
qed

section \<open>What the standard algorithms compute\<close>

lemma destroy_n_shape:
  "destroy_n (pre @ map Some xs @ post) (length pre) (length xs)
     = Some (pre @ replicate (length xs) None @ post)"
proof (induction xs arbitrary: pre)
  case Nil
  show ?case by simp
next
  case (Cons x xs)
  from Cons [of "pre @ [None]"] show ?case
    by (simp add: nth_append replicate_app_Cons_same)
qed

lemma destroy_at_shape:
  "destroy_at (pre @ Some x # post) (length pre) = Some (pre @ None # post)"
  by (simp add: destroy_at_def nth_append)

lemma uvc_shape:
  "uninitialized_value_construct_n T (pre @ replicate n None @ post) (length pre) n
     = (if value_init_throws T \<and> 0 < n then Thrown (pre @ replicate n None @ post)
        else Ok (pre @ replicate n (Some (value_init T)) @ post))"
proof (induction n arbitrary: pre)
  case 0
  show ?case by simp
next
  case (Suc n)
  from Suc [of "pre @ [Some (value_init T)]"] show ?case
    by (simp add: nth_append replicate_app_Cons_same)
qed

lemma uninitialized_copy_n_shape:
  "uninitialized_copy_n T (spre @ map Some xs @ spost) (length spre) (length xs)
       (dpre @ replicate (length xs) None @ dpost) (length dpre)
     = (if list_ex (copy_throws T) xs then Thrown (dpre @ replicate (length xs) None @ dpost)
        else Ok (dpre @ map Some xs @ dpost))"
proof (induction xs arbitrary: spre dpre)
  case Nil
  show ?case by simp
next
  case (Cons x xs)
  from Cons [of "spre @ [Some x]" "dpre @ [Some x]"] show ?case
    by (simp add: nth_append replicate_app_Cons_same)
qed

lemma uninitialized_move_n_shape:
  "uninitialized_move_n T (spre @ map Some xs @ spost) (length spre) (length xs)
       (dpre @ replicate (length xs) None @ dpost) (length dpre)
     = (if list_ex (move_raises T) xs
        then Thrown (spre @ map (\<lambda>x. Some (moved_from T x)) (takeWhile (\<lambda>x. \<not> move_raises T x) xs)
                       @ map Some (dropWhile (\<lambda>x. \<not> move_raises T x) xs) @ spost,
                     dpre @ replicate (length xs) None @ dpost)
        else Ok (spre @ map (\<lambda>x. Some (moved_from T x)) xs @ spost, dpre @ map Some xs @ dpost))"
proof (induction xs arbitrary: spre dpre)
  case Nil
  show ?case by simp
next
  case (Cons x xs)
  from Cons [of "spre @ [Some (moved_from T x)]" "dpre @ [Some x]"] show ?case
    by (simp add: nth_append replicate_app_Cons_same)
qed

lemma copy_n_shape:
  "length ys = length xs \<Longrightarrow>
   copy_n T (spre @ map Some xs @ spost) (length spre) (length xs)
       (dpre @ map Some ys @ dpost) (length dpre)
     = (if list_ex (copy_throws T) xs
        then Thrown (dpre @ map Some (takeWhile (\<lambda>x. \<not> copy_throws T x) xs)
                       @ map Some (drop (length (takeWhile (\<lambda>x. \<not> copy_throws T x) xs)) ys) @ dpost)
        else Ok (dpre @ map Some xs @ dpost))"
proof (induction xs arbitrary: spre dpre ys)
  case Nil
  then show ?case by simp
next
  case (Cons x xs)
  then obtain y ys' where ys: "ys = y # ys'" "length ys' = length xs"
    by (cases ys) auto
  from Cons.IH [of ys' "spre @ [Some x]" "dpre @ [Some x]"] ys show ?case
    by (simp add: nth_append)
qed

text \<open>The same algorithms when the destination ends after \<open>t\<close> slots, fewer than the
  elements to write: the algorithm runs past the block unless an element before that
  throws.\<close>

lemma uvc_short:
  "t < n \<Longrightarrow>
   uninitialized_value_construct_n T (pre @ replicate t None) (length pre) n
     = (if 0 < t \<and> value_init_throws T then Thrown (pre @ replicate t None) else Violation)"
proof (induction n arbitrary: pre t)
  case 0
  then show ?case by simp
next
  case (Suc n)
  show ?case
  proof (cases t)
    case 0
    then show ?thesis by simp
  next
    case (Suc t')
    with Suc.prems have "t' < n" by simp
    from Suc.IH [OF this, of "pre @ [Some (value_init T)]"] Suc show ?thesis
      by (simp add: nth_append)
  qed
qed

lemma uninitialized_copy_n_short:
  "t < length xs \<Longrightarrow>
   uninitialized_copy_n T (spre @ map Some xs @ spost) (length spre) (length xs)
       (dpre @ replicate t None) (length dpre)
     = (if list_ex (copy_throws T) (take t xs) then Thrown (dpre @ replicate t None)
        else Violation)"
proof (induction xs arbitrary: spre dpre t)
  case Nil
  then show ?case by simp
next
  case (Cons x xs)
  show ?case
  proof (cases t)
    case 0
    then show ?thesis by simp
  next
    case (Suc t')
    with Cons.prems have "t' < length xs" by simp
    from Cons.IH [OF this, of "spre @ [Some x]" "dpre @ [Some x]"] Suc show ?thesis
      by (simp add: nth_append replicate_app_Cons_same)
  qed
qed

lemma uninitialized_move_n_short:
  "t < length xs \<Longrightarrow>
   uninitialized_move_n T (spre @ map Some xs @ spost) (length spre) (length xs)
       (dpre @ replicate t None) (length dpre)
     = (if list_ex (move_raises T) (take t xs)
        then Thrown (spre @ map (\<lambda>x. Some (moved_from T x))
                              (takeWhile (\<lambda>x. \<not> move_raises T x) (take t xs))
                       @ map Some (dropWhile (\<lambda>x. \<not> move_raises T x) (take t xs))
                       @ map Some (drop t xs) @ spost,
                     dpre @ replicate t None)
        else Violation)"
proof (induction xs arbitrary: spre dpre t)
  case Nil
  then show ?case by simp
next
  case (Cons x xs)
  show ?case
  proof (cases t)
    case 0
    then show ?thesis by simp
  next
    case (Suc t')
    with Cons.prems have "t' < length xs" by simp
    have a: "map Some (take t' xs) @ map Some (drop t' xs) = map Some xs"
      by (simp flip: map_append)
    from Cons.IH [OF \<open>t' < length xs\<close>, of "spre @ [Some (moved_from T x)]" "dpre @ [Some x]"] Suc
    show ?thesis
      by (simp add: nth_append replicate_app_Cons_same a)
  qed
qed

section \<open>The block that an allocation obtains\<close>

lemma block_slots_fits: "fits T n \<Longrightarrow> block_slots T n = n"
  by (simp add: block_slots_def slots_in_def fits_def)

lemma block_slots_le: "block_slots T n \<le> n"
proof (cases "sizeof_T T = 0")
  case True
  then show ?thesis by (simp add: block_slots_def slots_in_def)
next
  case False
  have "(n * sizeof_T T) mod 2 ^ 64 div sizeof_T T \<le> n * sizeof_T T div sizeof_T T"
    by (rule div_le_mono) simp
  with False show ?thesis by (simp add: block_slots_def slots_in_def)
qed


lemma fits_mono: "fits T n \<Longrightarrow> m \<le> n \<Longrightarrow> fits T m"
proof -
  assume f: "fits T n" and le: "m \<le> n"
  from f have pos: "0 < sizeof_T T" by (simp add: fits_def)
  from le have "m * sizeof_T T \<le> n * sizeof_T T" by simp
  moreover from f have "n * sizeof_T T < 2 ^ 64" by (simp add: fits_def)
  ultimately have "m * sizeof_T T < 2 ^ 64" by (rule le_less_trans)
  with pos show ?thesis by (simp add: fits_def)
qed

lemma fits_plain [simp]: "fits plain n = (n * 4 < 2 ^ 64)"
  by (simp add: fits_def plain_def)

lemma fits_move_only [simp]: "fits move_only n = (n * 8 < 2 ^ 64)"
  by (simp add: fits_def move_only_def)

lemma fits_throwing_copy [simp]: "fits throwing_copy n = (n * 8 < 2 ^ 64)"
  by (simp add: fits_def throwing_copy_def)

section \<open>Construction, destruction and copy assignment\<close>

lemma RawMemory_sized_eq:
  "RawMemory_sized T n =
     (if n \<noteq> 0 \<and> bad_alloc T n then Thrown ()
      else Ok \<lparr>m_buffer = (if n = 0 then None else Some (replicate (block_slots T n) None)),
               m_capacity = n\<rparr>)"
  by (simp add: RawMemory_sized_def Allocate_def block_slots_def)

lemma Vector_sized_eq:
  "Vector_sized T n =
     (if n \<noteq> 0 \<and> bad_alloc T n then Thrown []
      else if block_slots T n < n
      then (if 0 < block_slots T n \<and> value_init_throws T
            then Thrown (replicate (block_slots T n) None) else Violation)
      else if value_init_throws T \<and> 0 < n then Thrown (replicate n None)
      else Ok (mk_vector (replicate n (value_init T)) 0))"
proof (cases "block_slots T n < n")
  case True
  then have "n \<noteq> 0" by simp
  with True uvc_short [OF True, of T "[]"] show ?thesis
    by (simp add: Vector_sized_def RawMemory_sized_eq cells_def)
next
  case False
  with block_slots_le [of T n] have "block_slots T n = n" by simp
  with uvc_shape [of T "[]" n "[]"] show ?thesis
    by (simp add: Vector_sized_def RawMemory_sized_eq cells_def with_cells_def mk_vector_def
        map_replicate_const)
qed

lemma Vector_copy_eq:
  "Vector_copy T (mk_vector xs k) =
     (if xs \<noteq> [] \<and> bad_alloc T (length xs) then Thrown []
      else if block_slots T (length xs) < length xs
      then (if list_ex (copy_throws T) (take (block_slots T (length xs)) xs)
            then Thrown (replicate (block_slots T (length xs)) None) else Violation)
      else if list_ex (copy_throws T) xs then Thrown (replicate (length xs) None)
      else Ok (mk_vector xs 0))"
proof (cases "block_slots T (length xs) < length xs")
  case True
  then have "xs \<noteq> []" by auto
  with True uninitialized_copy_n_short [OF True, of T "[]" "replicate k None" "[]"] show ?thesis
    by (simp add: Vector_copy_def RawMemory_sized_eq cells_def)
next
  case False
  with block_slots_le [of T "length xs"] have "block_slots T (length xs) = length xs" by simp
  with uninitialized_copy_n_shape [of T "[]" xs "replicate k None" "[]" "[]"] show ?thesis
    by (simp add: Vector_copy_def RawMemory_sized_eq cells_def with_cells_def)
       (simp add: mk_vector_def)
qed

lemma Vector_destroy_eq:
  "Vector_destroy (mk_vector xs k) = Some (replicate (length xs + k) None)"
  using destroy_n_shape [of "[]" xs "replicate k None"]
  by (simp add: Vector_destroy_def replicate_add)

lemma Vector_Swap_mk:
  "Vector_Swap (mk_vector xs k) (mk_vector ys l) = (mk_vector ys l, mk_vector xs k)"
  by (simp add: Vector_Swap_def RawMemory_Swap_def mk_vector_def)

lemma with_slots_size_mk:
  "length b = length xs + k \<Longrightarrow> b = map Some ys @ replicate j None \<Longrightarrow>
   (with_slots (mk_vector xs k) b)\<lparr>m_size := length ys\<rparr> = mk_vector ys j"
  by (auto simp add: with_slots_def with_cells_def mk_vector_def)

lemma copy_assign_realloc:
  assumes "length xs + k < length ys"
  shows "Vector_copy_assign T (mk_vector xs k) (mk_vector ys l) =
     (if bad_alloc T (length ys) then Thrown (mk_vector xs k, [])
      else if block_slots T (length ys) < length ys
      then (if list_ex (copy_throws T) (take (block_slots T (length ys)) ys)
            then Thrown (mk_vector xs k, replicate (block_slots T (length ys)) None)
            else Violation)
      else if list_ex (copy_throws T) ys then Thrown (mk_vector xs k, replicate (length ys) None)
      else Ok (mk_vector ys 0))"
proof -
  from assms have "ys \<noteq> []" by auto
  with assms show ?thesis
    by (simp add: Vector_copy_assign_def Vector_copy_eq Vector_Swap_mk Vector_destroy_eq)
qed

lemma copy_assign_shrink:
  assumes "length ys < length xs"
  shows "Vector_copy_assign T (mk_vector xs k) (mk_vector ys l) =
     (if list_ex (copy_throws T) ys
      then Thrown (with_slots (mk_vector xs k)
             (map Some (takeWhile (\<lambda>x. \<not> copy_throws T x) ys)
                @ map Some (drop (length (takeWhile (\<lambda>x. \<not> copy_throws T x) ys)) (take (length ys) xs))
                @ map Some (drop (length ys) xs) @ replicate k None), [])
      else Ok (mk_vector ys (length xs + k - length ys)))"
proof -
  let ?m = "length ys"
  have dst: "map Some xs @ replicate k None
      = [] @ map Some (take ?m xs) @ (map Some (drop ?m xs) @ replicate k None)"
    by (simp flip: map_append)
  have len: "length (take ?m xs) = length ys" using assms by simp
  have c: "copy_n T (map Some ys @ replicate l None) 0 ?m (map Some xs @ replicate k None) 0
      = (if list_ex (copy_throws T) ys
         then Thrown (map Some (takeWhile (\<lambda>x. \<not> copy_throws T x) ys)
                @ map Some (drop (length (takeWhile (\<lambda>x. \<not> copy_throws T x) ys)) (take ?m xs))
                @ map Some (drop ?m xs) @ replicate k None)
         else Ok (map Some ys @ map Some (drop ?m xs) @ replicate k None))"
    using copy_n_shape [OF len, of T "[]" "replicate l None" "[]"
        "map Some (drop ?m xs) @ replicate k None"]
    unfolding dst by simp
  have d: "destroy_n (map Some ys @ map Some (drop ?m xs) @ replicate k None) ?m (length xs - ?m)
      = Some (map Some ys @ replicate (length xs - ?m) None @ replicate k None)"
    using destroy_n_shape [of "map Some ys" "drop ?m xs" "replicate k None"] by simp
  have r: "(with_slots (mk_vector xs k)
              (map Some ys @ replicate (length xs - ?m) None @ replicate k None))\<lparr>m_size := ?m\<rparr>
      = mk_vector ys (length xs + k - ?m)"
    using assms by (intro with_slots_size_mk) (simp_all add: replicate_add [symmetric])
  from assms show ?thesis
    by (simp add: Vector_copy_assign_def c d r)
qed

lemma copy_assign_fill:
  assumes "length xs \<le> length ys" "length ys \<le> length xs + k"
  shows "Vector_copy_assign T (mk_vector xs k) (mk_vector ys l) =
     (if list_ex (copy_throws T) (take (length xs) ys)
      then Thrown (with_slots (mk_vector xs k)
             (map Some (takeWhile (\<lambda>x. \<not> copy_throws T x) (take (length xs) ys))
                @ map Some (drop (length (takeWhile (\<lambda>x. \<not> copy_throws T x) (take (length xs) ys))) xs)
                @ replicate k None), [])
      else if list_ex (copy_throws T) (drop (length xs) ys)
      then Thrown (with_slots (mk_vector xs k)
             (map Some (take (length xs) ys) @ replicate k None), [])
      else Ok (mk_vector ys (length xs + k - length ys)))"
proof -
  let ?n = "length xs" and ?m = "length ys"
  let ?j = "?n + k - ?m"
  have src: "map Some ys @ replicate l None
      = [] @ map Some (take ?n ys) @ (map Some (drop ?n ys) @ replicate l None)"
    by (simp flip: map_append)
  have len: "length xs = length (take ?n ys)" using assms by simp
  have c: "copy_n T (map Some ys @ replicate l None) 0 ?n (map Some xs @ replicate k None) 0
      = (if list_ex (copy_throws T) (take ?n ys)
         then Thrown (map Some (takeWhile (\<lambda>x. \<not> copy_throws T x) (take ?n ys))
                @ map Some (drop (length (takeWhile (\<lambda>x. \<not> copy_throws T x) (take ?n ys))) xs)
                @ replicate k None)
         else Ok (map Some (take ?n ys) @ replicate k None))"
    using copy_n_shape [OF len, of T "[]" "map Some (drop ?n ys) @ replicate l None" "[]"
        "replicate k None"] assms
    unfolding src by simp
  have src2: "map Some ys @ replicate l None
      = map Some (take ?n ys) @ map Some (drop ?n ys) @ replicate l None"
    by (simp flip: map_append)
  have k: "replicate k (None :: 'a option) = replicate (?m - ?n) None @ replicate ?j None"
    using assms by (simp add: replicate_add [symmetric])
  have u: "uninitialized_copy_n T (map Some ys @ replicate l None) ?n (?m - ?n)
             (map Some (take ?n ys) @ replicate k None) ?n
      = (if list_ex (copy_throws T) (drop ?n ys)
         then Thrown (map Some (take ?n ys) @ replicate k None)
         else Ok (map Some ys @ replicate ?j None))"
    using uninitialized_copy_n_shape [of T "map Some (take ?n ys)" "drop ?n ys"
        "replicate l None" "map Some (take ?n ys)" "replicate ?j None"] assms
    unfolding src2 k by (simp flip: map_append)
  have r: "(with_slots (mk_vector xs k) (map Some ys @ replicate ?j None))\<lparr>m_size := ?m\<rparr>
      = mk_vector ys ?j"
    using assms by (intro with_slots_size_mk) simp_all
  from assms show ?thesis
    by (simp add: Vector_copy_assign_def c u r)
qed

section \<open>Transfer to a new block\<close>

lemma length_left_behind [simp]: "length (left_behind T xs) = length xs"
proof -
  have "length (takeWhile (\<lambda>x. \<not> move_raises T x) xs) + length (dropWhile (\<lambda>x. \<not> move_raises T x) xs)
      = length xs"
    by (metis length_append takeWhile_dropWhile_id)
  then show ?thesis by (simp add: left_behind_def)
qed

lemma left_behind_copy [simp]: "\<not> uses_move T \<Longrightarrow> left_behind T xs = xs"
  by (simp add: left_behind_def)

lemma takeWhile_all: "\<not> list_ex P xs \<Longrightarrow> takeWhile (\<lambda>x. \<not> P x) xs = xs"
  by (induction xs) auto

lemma dropWhile_all: "\<not> list_ex P xs \<Longrightarrow> dropWhile (\<lambda>x. \<not> P x) xs = []"
  by (induction xs) auto

lemma SafeMemoryTransfer_shape:
  "SafeMemoryTransfer T (spre @ map Some xs @ spost) (length spre) (length xs)
       (dpre @ replicate (length xs) None @ dpost) (length dpre)
     = (if transfer_throws T xs
        then Thrown (spre @ map Some (left_behind T xs) @ spost,
                     dpre @ replicate (length xs) None @ dpost)
        else Ok (spre @ map Some (left_behind T xs) @ spost, dpre @ map Some xs @ dpost))"
  by (simp add: SafeMemoryTransfer_def transfer_throws_def left_behind_def uses_move_def
      uninitialized_move_n_shape uninitialized_copy_n_shape takeWhile_all dropWhile_all comp_def)

lemma SafeMemoryTransfer_short:
  assumes "t < length xs"
  shows "SafeMemoryTransfer T (spre @ map Some xs @ spost) (length spre) (length xs)
       (dpre @ replicate t None) (length dpre)
     = (if transfer_throws T (take t xs)
        then Thrown (spre @ map Some (left_behind T (take t xs)) @ map Some (drop t xs) @ spost,
                     dpre @ replicate t None)
        else Violation)"
proof -
  have a: "map Some (take t xs) @ map Some (drop t xs) @ spost = map Some xs @ spost"
    by (simp flip: map_append append_assoc)
  show ?thesis
    by (simp add: SafeMemoryTransfer_def transfer_throws_def left_behind_def uses_move_def
        uninitialized_move_n_short [OF assms] uninitialized_copy_n_short [OF assms] comp_def a)
qed

lemma transfer_throws_append:
  "transfer_throws T (xs @ ys) = (transfer_throws T xs \<or> transfer_throws T ys)"
  by (simp add: transfer_throws_def)


lemma FullSafeMemoryTransfer_shape:
  "FullSafeMemoryTransfer T (mk_vector xs k) 0 (length xs)
       \<lparr>m_buffer = Some (replicate (length xs) None @ dpost), m_capacity = c\<rparr> 0
     = (if transfer_throws T xs
        then Thrown (mk_vector (left_behind T xs) k,
               \<lparr>m_buffer = Some (replicate (length xs) None @ dpost), m_capacity = c\<rparr>)
        else Ok (\<lparr>m_data = \<lparr>m_buffer = Some (map Some xs @ dpost), m_capacity = c\<rparr>,
                  m_size = length xs\<rparr>,
                 \<lparr>m_buffer = (if length xs + k = 0 then None
                              else Some (replicate (length xs + k) None)),
                  m_capacity = length xs + k\<rparr>))"
proof -
  have t: "SafeMemoryTransfer T (map Some xs @ replicate k None) 0 (length xs)
       (replicate (length xs) None @ dpost) 0
     = (if transfer_throws T xs
        then Thrown (map Some (left_behind T xs) @ replicate k None,
                     replicate (length xs) None @ dpost)
        else Ok (map Some (left_behind T xs) @ replicate k None, map Some xs @ dpost))"
    using SafeMemoryTransfer_shape [of T "[]" xs "replicate k None" "[]" dpost] by simp
  have d: "destroy_n (map Some (left_behind T xs) @ replicate k None) 0 (length xs)
     = Some (replicate (length xs + k) None)"
    using destroy_n_shape [of "[]" "left_behind T xs" "replicate k None"]
    by (simp add: replicate_add)
  show ?thesis
    by (simp add: FullSafeMemoryTransfer_def t d cells_def with_cells_def RawMemory_Swap_def)
       (auto simp add: mk_vector_def with_slots_def with_cells_def)
qed

lemma Reserve_eq:
  assumes "fits T n"
  shows "Reserve T (mk_vector xs k) n =
     (if n \<le> length xs + k then Ok (mk_vector xs k)
      else if bad_alloc T n then Thrown (mk_vector xs k, [])
      else if transfer_throws T xs then Thrown (mk_vector (left_behind T xs) k, replicate n None)
      else Ok (mk_vector xs (n - length xs)))"
proof (cases "n \<le> length xs + k")
  case True
  then show ?thesis by (simp add: Reserve_def)
next
  case False
  then have pos: "0 < n" "n \<noteq> 0" and lt: "length xs < n" by auto
  let ?post = "replicate (n - length xs) (None :: 'a option)"
  from False have r: "replicate n (None :: 'a option) = replicate (length xs) None @ ?post"
    by (simp add: replicate_add [symmetric])
  have f: "FullSafeMemoryTransfer T (mk_vector xs k) 0 (length xs)
       \<lparr>m_buffer = Some (replicate (length xs) None @ ?post), m_capacity = n\<rparr> 0
     = (if transfer_throws T xs
        then Thrown (mk_vector (left_behind T xs) k,
               \<lparr>m_buffer = Some (replicate (length xs) None @ ?post), m_capacity = n\<rparr>)
        else Ok (\<lparr>m_data = \<lparr>m_buffer = Some (map Some xs @ ?post), m_capacity = n\<rparr>,
                  m_size = length xs\<rparr>,
                 \<lparr>m_buffer = (if length xs + k = 0 then None
                              else Some (replicate (length xs + k) None)),
                  m_capacity = length xs + k\<rparr>))"
    by (rule FullSafeMemoryTransfer_shape)
  have m: "\<lparr>m_data = \<lparr>m_buffer = Some (map Some xs @ ?post), m_capacity = n\<rparr>,
            m_size = length xs\<rparr> = mk_vector xs (n - length xs)"
    using False by (simp add: mk_vector_def)
  have s: "RawMemory_sized T n = (if bad_alloc T n then Thrown ()
      else Ok \<lparr>m_buffer = Some (replicate (length xs) None @ ?post), m_capacity = n\<rparr>)"
    using pos by (simp add: RawMemory_sized_eq block_slots_fits [OF assms] flip: r)
  have c: "cells \<lparr>m_buffer = Some (replicate (length xs) None @ ?post), m_capacity = n\<rparr>
      = replicate n None"
    by (simp add: cells_def flip: r)
  show ?thesis
    unfolding Reserve_def s Size_mk_vector
    by (simp only: f m c Capacity_mk_vector False if_False outcome.case prod.case split: if_splits)
       simp
qed

text \<open>\<^verbatim>\<open>Reserve\<close> on a vector without elements, whatever block the allocation obtains.\<close>

lemma Reserve_empty:
  assumes "k < n"
  shows "Reserve T (mk_vector [] k) n =
     (if bad_alloc T n then Thrown (mk_vector [] k, [])
      else Ok \<lparr>m_data = \<lparr>m_buffer = Some (replicate (block_slots T n) None), m_capacity = n\<rparr>,
               m_size = 0\<rparr>)"
  using assms
  by (simp add: Reserve_def RawMemory_sized_eq FullSafeMemoryTransfer_def SafeMemoryTransfer_def
      RawMemory_Swap_def cells_def with_cells_def)

text \<open>With a new capacity whose product with \<^verbatim>\<open>sizeof(T)\<close> wraps, \<^verbatim>\<open>Reserve\<close> transfers
  the elements to a block that is too small for them.\<close>

lemma Reserve_wraps: "Reserve plain (mk_vector [1] 0) (2 ^ 62) = Violation"
proof -
  define n :: nat where "n = 2 ^ 62"
  have b: "block_slots plain n = 0" and n: "\<not> n \<le> Suc 0" "n \<noteq> 0"
    by (simp_all add: n_def block_slots_def slots_in_def plain_def)
  have na: "\<not> bad_alloc plain n" by (simp add: plain_def)
  have "SafeMemoryTransfer plain ([] @ map Some [1] @ []) (length ([] :: nat option list))
      (length [1 :: nat]) ([] @ replicate 0 None) (length ([] :: nat option list)) = Violation"
    by (subst SafeMemoryTransfer_short) (simp_all add: transfer_throws_def)
  then have "SafeMemoryTransfer plain [Some 1] 0 (Suc 0) [] 0 = Violation" by simp
  then have "Reserve plain (mk_vector [1] 0) n = Violation"
    by (simp add: Reserve_def RawMemory_sized_eq b n na FullSafeMemoryTransfer_def cells_def)
  then show ?thesis by (simp only: n_def)
qed

lemma block_slots_0 [simp]: "block_slots T 0 = 0"
  by (simp add: block_slots_def slots_in_def)

lemma grown_0 [simp]: "grown 0 = Suc 0"
  by (simp add: grown_def)

lemma fits_lt:
  assumes "fits T n"
  shows "n < 2 ^ 64"
proof -
  from assms have pos: "0 < sizeof_T T" and lt: "n * sizeof_T T < 2 ^ 64"
    by (simp_all add: fits_def)
  from pos have "n \<le> n * sizeof_T T" by (cases "sizeof_T T") simp_all
  then show ?thesis using lt by (rule le_less_trans)
qed

text \<open>When the size in bytes of the doubled capacity does not wrap, the doubled capacity
  does not wrap either.\<close>

lemma grown_fits:
  assumes "fits T (max 1 (2 * n))"
  shows "grown n = max 1 (2 * n)" "n < grown n" "grown n \<noteq> 0" "fits T (grown n)"
    "block_slots T (grown n) = grown n"
proof -
  from fits_lt [OF assms] have "n * 2 < 2 ^ 64" by simp
  then show g: "grown n = max 1 (2 * n)" by (simp add: grown_def)
  then show "n < grown n" "grown n \<noteq> 0" by simp_all
  from assms g show f: "fits T (grown n)" by simp
  then show "block_slots T (grown n) = grown n" by (rule block_slots_fits)
qed

lemma replicate_split:
  assumes "n < c"
  shows "replicate c a = replicate n a @ a # replicate (c - Suc n) a"
proof -
  from assms have "c = n + Suc (c - Suc n)" by simp
  then have "replicate c a = replicate (n + Suc (c - Suc n)) a" by simp
  also have "\<dots> = replicate n a @ a # replicate (c - Suc n) a"
    by (simp only: replicate_add replicate_Suc)
  finally show ?thesis .
qed

lemma update_at_length: "length p = n \<Longrightarrow> (p @ a # q)[n := b] = p @ b # q"
  by (induction p arbitrary: n) auto

lemma m_capacity_with_cells [simp]: "m_capacity (with_cells m b) = m_capacity m"
  by (simp add: with_cells_def split: option.splits)

lemma EmplaceBack_spare:
  "EmplaceBack T (mk_vector xs (Suc k)) args =
     (case args (map Some xs @ replicate (Suc k) None) of
        None \<Rightarrow> Thrown (mk_vector xs (Suc k), [])
      | Some x \<Rightarrow> Ok (mk_vector (xs @ [x]) k, length xs))"
proof (cases "args (map Some xs @ replicate (Suc k) None)")
  case None
  then show ?thesis
    by (simp add: EmplaceBack_def RawMemory_plus_def)
next
  case (Some x)
  have "(with_slots (mk_vector xs (Suc k)) (map Some xs @ Some x # replicate k None))
          \<lparr>m_size := Suc (length xs)\<rparr> = mk_vector (xs @ [x]) k"
    using with_slots_size_mk [of "map Some (xs @ [x]) @ replicate k None" xs "Suc k" "xs @ [x]" k]
    by simp
  with Some show ?thesis
    by (simp add: EmplaceBack_def RawMemory_plus_def RawMemory_at_def update_at_length)
       (simp add: with_slots_def)
qed

text \<open>\<^verbatim>\<open>EmplaceBack\<close> on a full vector, whatever capacity the doubling gives and
  whatever block the allocation obtains.\<close>

lemma EmplaceBack_full:
  "EmplaceBack T (mk_vector xs 0) args =
     (if grown (length xs) \<noteq> 0 \<and> bad_alloc T (grown (length xs)) then Thrown (mk_vector xs 0, [])
      else if grown (length xs) < length xs then Violation
      else case args (map Some xs) of
        None \<Rightarrow> Thrown (mk_vector xs 0, replicate (block_slots T (grown (length xs))) None)
      | Some x \<Rightarrow>
          if block_slots T (grown (length xs)) \<le> length xs then Violation
          else if transfer_throws T xs
          then Thrown (mk_vector (left_behind T xs) 0,
                 replicate (length xs) None
                   @ Some x # replicate (block_slots T (grown (length xs)) - Suc (length xs)) None)
          else Ok (\<lparr>m_data = \<lparr>m_buffer = Some (map Some (xs @ [x])
                                   @ replicate (block_slots T (grown (length xs)) - Suc (length xs)) None),
                              m_capacity = grown (length xs)\<rparr>,
                    m_size = Suc (length xs)\<rparr>, length xs))"
proof -
  let ?n = "length xs"
  let ?c = "grown ?n"
  let ?m = "block_slots T ?c"
  let ?post = "replicate (?m - Suc ?n) (None :: 'a option)"
  have c: "(if ?n = 0 then 1 else Capacity (mk_vector xs 0) * 2 mod 2 ^ 64) = ?c"
    by (simp add: grown_def)
  have s: "RawMemory_sized T ?c = (if ?c \<noteq> 0 \<and> bad_alloc T ?c then Thrown ()
      else Ok \<lparr>m_buffer = (if ?c = 0 then None else Some (replicate ?m None)), m_capacity = ?c\<rparr>)"
    by (rule RawMemory_sized_eq)
  have cl: "cells \<lparr>m_buffer = (if ?c = 0 then None else Some (replicate ?m None)), m_capacity = ?c\<rparr>
      = replicate ?m None"
    by (simp add: cells_def)
  show ?thesis
  proof (cases "?c < ?n")
    case True
    then show ?thesis
      unfolding EmplaceBack_def Size_mk_vector c s
      by (simp add: RawMemory_plus_def)
  next
    case False
    then have le: "?n \<le> ?c" by simp
    then have c1: "xs \<noteq> [] \<Longrightarrow> 0 < ?c" by (cases xs) simp_all
    show ?thesis
    proof (cases "args (map Some xs)")
      case None
      with False show ?thesis
        unfolding EmplaceBack_def Size_mk_vector c s
        by (simp add: RawMemory_plus_def cells_def le c1)
    next
      case (Some x)
      show ?thesis
      proof (cases "?m \<le> ?n")
        case True
        with Some False show ?thesis
          unfolding EmplaceBack_def Size_mk_vector c s
          by (simp add: RawMemory_plus_def cells_def le c1)
      next
        case short: False
        then have ltm: "?n < ?m" by simp
        with block_slots_le [of T ?c] have lt: "?n < ?c" and c0: "?c \<noteq> 0" by simp_all
        have r: "replicate ?m (None :: 'a option) = replicate ?n None @ None # ?post"
          using ltm by (rule replicate_split)
        have u: "(replicate ?m (None :: 'a option))[?n := Some x] = replicate ?n None @ Some x # ?post"
          unfolding r by (simp add: update_at_length)
        have f: "FullSafeMemoryTransfer T (mk_vector xs 0) 0 ?n
             \<lparr>m_buffer = Some (replicate ?n None @ Some x # ?post), m_capacity = ?c\<rparr> 0
           = (if transfer_throws T xs
              then Thrown (mk_vector (left_behind T xs) 0,
                     \<lparr>m_buffer = Some (replicate ?n None @ Some x # ?post), m_capacity = ?c\<rparr>)
              else Ok (\<lparr>m_data = \<lparr>m_buffer = Some (map Some xs @ Some x # ?post), m_capacity = ?c\<rparr>,
                        m_size = ?n\<rparr>,
                       \<lparr>m_buffer = (if ?n + 0 = 0 then None else Some (replicate (?n + 0) None)),
                        m_capacity = ?n + 0\<rparr>))"
          by (rule FullSafeMemoryTransfer_shape)
        from Some short ltm c0 False show ?thesis
          unfolding EmplaceBack_def Size_mk_vector c s
          apply (simp add: RawMemory_plus_def cells_def le u)
          apply (simp add: with_cells_def f)
          apply (simp add: RawMemory_at_def lt cells_def)
          done
      qed
    qed
  qed
qed

text \<open>The reallocating branch of \<^verbatim>\<open>Emplace\<close> on a full vector, whatever capacity the
  doubling gives and whatever block the allocation obtains: when the block has \<open>m\<close>
  slots and \<open>m\<close> is at most the size, the second transfer runs past the block after
  \<open>m - pos - 1\<close> elements.\<close>

lemma Emplace_grow_eq:
  assumes "pos \<le> length xs"
  shows "Emplace_grow T (mk_vector xs 0) pos args =
     (if grown (length xs) \<noteq> 0 \<and> bad_alloc T (grown (length xs)) then Thrown (mk_vector xs 0, [])
      else case args (map Some xs) of
        None \<Rightarrow> Thrown (mk_vector xs 0, replicate (block_slots T (grown (length xs))) None)
      | Some y \<Rightarrow>
          if block_slots T (grown (length xs)) \<le> pos then Violation
          else if transfer_throws T (take pos xs)
          then Thrown (mk_vector (left_behind T (take pos xs) @ drop pos xs) 0,
                 replicate (block_slots T (grown (length xs))) None)
          else if length xs < block_slots T (grown (length xs))
          then (if transfer_throws T (drop pos xs)
                then Thrown (mk_vector (left_behind T (take pos xs) @ left_behind T (drop pos xs)) 0,
                       replicate (block_slots T (grown (length xs))) None)
                else Ok (\<lparr>m_data = \<lparr>m_buffer = Some (map Some (take pos xs @ y # drop pos xs)
                                     @ replicate (block_slots T (grown (length xs)) - Suc (length xs)) None),
                                    m_capacity = grown (length xs)\<rparr>,
                          m_size = length xs\<rparr>))
          else if transfer_throws T (take (block_slots T (grown (length xs)) - Suc pos) (drop pos xs))
          then Thrown (mk_vector (left_behind T (take pos xs)
                         @ left_behind T (take (block_slots T (grown (length xs)) - Suc pos) (drop pos xs))
                         @ drop (block_slots T (grown (length xs)) - Suc pos) (drop pos xs)) 0,
                 replicate (block_slots T (grown (length xs))) None)
          else Violation)"
proof -
  let ?n = "length xs"
  let ?c = "grown ?n"
  let ?m = "block_slots T ?c"
  let ?a = "take pos xs" and ?b = "drop pos xs"
  have c: "(if Size (mk_vector xs 0) = 0 then 1 else Capacity (mk_vector xs 0) * 2 mod 2 ^ 64) = ?c"
    by (simp add: grown_def)
  have s: "RawMemory_sized T ?c = (if ?c \<noteq> 0 \<and> bad_alloc T ?c then Thrown ()
      else Ok \<lparr>m_buffer = (if ?c = 0 then None else Some (replicate ?m None)), m_capacity = ?c\<rparr>)"
    by (rule RawMemory_sized_eq)
  have cl: "cells \<lparr>m_buffer = (if ?c = 0 then None else Some (replicate ?m None)), m_capacity = ?c\<rparr>
      = replicate ?m None"
    by (simp add: cells_def)
  have la: "min ?n pos = pos" and lb: "length ?b = ?n - pos" using assms by simp_all
  have w: "with_slots (mk_vector xs 0) (map Some zs) = mk_vector zs 0" if "length zs = ?n" for zs
    using that by (simp add: with_slots_def with_cells_def mk_vector_def)
  have w1: "with_slots (mk_vector xs 0) (map Some (left_behind T ?a) @ map Some ?b)
      = mk_vector (left_behind T ?a @ ?b) 0"
    using w [of "left_behind T ?a @ ?b"] assms by (simp add: la lb)
  show ?thesis
  proof (cases "args (map Some xs)")
    case None
    then show ?thesis
      unfolding Emplace_grow_def c s by (simp add: cells_def)
  next
    case (Some y)
    show ?thesis
    proof (cases "?m \<le> pos")
      case True
      with Some show ?thesis
        unfolding Emplace_grow_def c s by (simp add: cells_def)
    next
      case False
      then have plt: "pos < ?m" by simp
      with block_slots_le [of T ?c] have c0: "?c \<noteq> 0" by simp
      let ?rest = "replicate (?m - Suc pos) (None :: 'a option)"
      have r: "replicate ?m (None :: 'a option) = replicate pos None @ None # ?rest"
        using plt by (rule replicate_split)
      have u: "(replicate ?m (None :: 'a option))[pos := Some y] = replicate pos None @ Some y # ?rest"
        unfolding r by (simp add: update_at_length)
      have t1: "SafeMemoryTransfer T (map Some xs) 0 pos (replicate pos None @ Some y # ?rest) 0
          = (if transfer_throws T ?a
             then Thrown (map Some (left_behind T ?a) @ map Some ?b,
                     replicate pos None @ Some y # ?rest)
             else Ok (map Some (left_behind T ?a) @ map Some ?b, map Some ?a @ Some y # ?rest))"
        using SafeMemoryTransfer_shape [of T "[]" ?a "map Some ?b" "[]" "Some y # ?rest"]
        by (simp add: la flip: map_append)
      have d1: "destroy_at (replicate pos None @ Some y # ?rest) pos = Some (replicate ?m None)"
        using destroy_at_shape [of "replicate pos None" y ?rest]
        by (simp add: r)
      have d2: "destroy_n (map Some ?a @ Some y # ?rest) 0 (Suc pos) = Some (replicate ?m None)"
        using destroy_n_shape [of "[]" "?a @ [y]" ?rest]
        by (simp add: la r replicate_app_Cons_same)
      show ?thesis
      proof (cases "?n < ?m")
        case True
        let ?post = "replicate (?m - Suc ?n) (None :: 'a option)"
        have rest: "?rest = replicate (?n - pos) None @ ?post"
          using True assms by (simp add: replicate_add [symmetric])
        have t2: "SafeMemoryTransfer T (map Some (left_behind T ?a) @ map Some ?b) pos (?n - pos)
              (map Some ?a @ Some y # ?rest) (Suc pos)
            = (if transfer_throws T ?b
               then Thrown (map Some (left_behind T ?a) @ map Some (left_behind T ?b),
                       map Some ?a @ Some y # ?rest)
               else Ok (map Some (left_behind T ?a) @ map Some (left_behind T ?b),
                       map Some ?a @ Some y # map Some ?b @ ?post))"
          using SafeMemoryTransfer_shape [of T "map Some (left_behind T ?a)" ?b "[]"
              "map Some ?a @ [Some y]" ?post]
          unfolding rest by (simp add: la lb)
        have d3: "destroy_n (map Some (left_behind T ?a) @ map Some (left_behind T ?b)) 0 ?n
            = Some (replicate ?n None)"
          using destroy_n_shape [of "[]" "left_behind T ?a @ left_behind T ?b" "[]"] assms
          by (simp add: la lb)
        have w2: "with_slots (mk_vector xs 0) (map Some (left_behind T ?a) @ map Some (left_behind T ?b))
            = mk_vector (left_behind T ?a @ left_behind T ?b) 0"
          using w [of "left_behind T ?a @ left_behind T ?b"] assms by (simp add: la lb)
        from Some False True c0 show ?thesis
          unfolding Emplace_grow_def c s
          apply (simp add: cells_def plt u t1 d1 w1 t2 d2 w2 d3 del: destroy_n.simps)
          apply (simp add: RawMemory_Swap_def with_cells_def mk_vector_def)
          done
      next
        case short: False
        let ?t = "?m - Suc pos"
        from short plt have tlt: "?t < length ?b" using assms by simp
        have t2: "SafeMemoryTransfer T (map Some (left_behind T ?a) @ map Some ?b) pos (?n - pos)
              (map Some ?a @ Some y # ?rest) (Suc pos)
            = (if transfer_throws T (take ?t ?b)
               then Thrown (map Some (left_behind T ?a) @ map Some (left_behind T (take ?t ?b))
                         @ map Some (drop ?t ?b),
                       map Some ?a @ Some y # ?rest)
               else Violation)"
          using SafeMemoryTransfer_short [OF tlt, of T "map Some (left_behind T ?a)" "[]"
              "map Some ?a @ [Some y]"]
          by (simp add: la lb)
        have w3: "with_slots (mk_vector xs 0)
              (map Some (left_behind T ?a) @ map Some (left_behind T (take ?t ?b)) @ map Some (drop ?t ?b))
            = mk_vector (left_behind T ?a @ left_behind T (take ?t ?b) @ drop ?t ?b) 0"
          using w [of "left_behind T ?a @ left_behind T (take ?t ?b) @ drop ?t ?b"] assms tlt
          by (simp add: la lb)
        from Some False short c0 show ?thesis
          unfolding Emplace_grow_def c s
          by (simp add: cells_def plt u t1 d1 w1 t2 d2 w3 del: destroy_n.simps drop_drop)
      qed
    qed
  qed
qed

section \<open>The loop of Resize, runs of appends, failures of a transfer\<close>

lemma Resize_loop_stuck_aux:
  assumes "Resize_loop T v new_size capacity = Some y"
  shows "\<not> (Capacity v < new_size \<and> capacity * 2 mod 2 ^ 64 \<le> Capacity v)"
proof (rule Resize_loop.raw_induct
    [where P = "\<lambda>T v n c y. \<not> (Capacity v < n \<and> c * 2 mod 2 ^ 64 \<le> Capacity v)", OF _ assms])
  fix loop :: "'a elem_type \<Rightarrow> 'a Vector \<Rightarrow> nat \<Rightarrow> nat
      \<Rightarrow> ('a Vector \<times> 'a block, 'a Vector) outcome option"
  fix T v n c y
  assume IH: "\<And>T v n c y. loop T v n c = Some y
        \<Longrightarrow> \<not> (Capacity v < n \<and> c * 2 mod 2 ^ 64 \<le> Capacity v)"
    and eq: "(if Capacity v < n
              then case Reserve T v (c * 2 mod 2 ^ 64) of
                     Ok v' \<Rightarrow> loop T v' n c
                   | Thrown e \<Rightarrow> Some (Thrown e)
                   | Violation \<Rightarrow> Some Violation
              else Some (Ok v)) = Some y"
  show "\<not> (Capacity v < n \<and> c * 2 mod 2 ^ 64 \<le> Capacity v)"
  proof
    assume a: "Capacity v < n \<and> c * 2 mod 2 ^ 64 \<le> Capacity v"
    then have "Reserve T v (c * 2 mod 2 ^ 64) = Ok v"
      by (simp add: Reserve_def Capacity_def)
    with a eq have "loop T v n c = Some y" by simp
    from IH [OF this] a show False by simp
  qed
qed

lemma Resize_loop_stuck:
  assumes "Capacity v < new_size" "capacity * 2 mod 2 ^ 64 \<le> Capacity v"
  shows "Resize_loop T v new_size capacity = None"
proof (cases "Resize_loop T v new_size capacity")
  case None
  then show ?thesis .
next
  case (Some y)
  from Resize_loop_stuck_aux [OF this] assms show ?thesis by simp
qed

lemma Resize_loop_done:
  "new_size \<le> Capacity v \<Longrightarrow> Resize_loop T v new_size capacity = Some (Ok v)"
  by (subst Resize_loop.simps) simp

lemma transfer_plain [simp]: "\<not> transfer_throws plain xs"
  by (simp add: transfer_throws_def plain_def move_raises_def uses_move_def list_ex_iff)

lemma Erase_last:
  "Erase T (mk_vector (xs @ [x]) k) (length xs) = Ok (mk_vector xs (Suc k), length xs)"
proof -
  have d: "destroy_at (map Some xs @ Some x # replicate k None) (length xs)
      = Some (map Some xs @ None # replicate k None)"
    using destroy_at_shape [of "map Some xs" x "replicate k None"] by simp
  have w: "(with_slots (mk_vector (xs @ [x]) k) (map Some xs @ None # replicate k None))
      \<lparr>m_size := length xs\<rparr> = mk_vector xs (Suc k)"
    using with_slots_size_mk [of "map Some xs @ replicate (Suc k) None" "xs @ [x]" k xs "Suc k"]
    by simp
  show ?thesis
    by (simp add: Erase_def std_move_def d w)
qed

lemma Vector_default_mk: "Vector_default = mk_vector [] 0"
  by (simp add: Vector_default_def RawMemory_default_def mk_vector_def)

lemma plain_simps [simp]:
  "value_init plain = 0" "\<not> value_init_throws plain" "\<not> copy_throws plain x"
  "\<not> move_raises plain x" "moved_from plain x = x" "\<not> bad_alloc plain n"
  by (simp_all add: plain_def move_raises_def)

lemma Capacity_Vector_default [simp]: "Capacity Vector_default = 0" "Size Vector_default = 0"
  by (simp_all add: Vector_default_mk)

lemma capacity_after_power:
  "n = 0 \<and> capacity_after n = 0 \<or>
   (\<exists>k. capacity_after n = 2 ^ k \<and> n \<le> 2 ^ k \<and> 2 ^ k < 2 * n)"
proof (induction n)
  case 0
  show ?case by simp
next
  case (Suc n)
  from Suc show ?case
  proof
    assume "n = 0 \<and> capacity_after n = 0"
    then have "capacity_after (Suc n) = 2 ^ 0 \<and> Suc n \<le> 2 ^ 0 \<and> (2::nat) ^ 0 < 2 * Suc n"
      by simp
    then show ?thesis by blast
  next
    assume "\<exists>k. capacity_after n = 2 ^ k \<and> n \<le> 2 ^ k \<and> 2 ^ k < 2 * n"
    then obtain k where k: "capacity_after n = 2 ^ k" "n \<le> 2 ^ k" "2 ^ k < 2 * n" by blast
    show ?thesis
    proof (cases "n < 2 ^ k")
      case True
      with k have "capacity_after (Suc n) = 2 ^ k \<and> Suc n \<le> 2 ^ k \<and> (2::nat) ^ k < 2 * Suc n"
        by simp
      then show ?thesis by blast
    next
      case False
      with k have "n = 2 ^ k" by simp
      with k have "capacity_after (Suc n) = 2 ^ Suc k \<and> Suc n \<le> 2 ^ Suc k
          \<and> (2::nat) ^ Suc k < 2 * Suc n"
        by simp
      then show ?thesis by blast
    qed
  qed
qed

lemma capacity_after_ge: "n \<le> capacity_after n"
  using capacity_after_power [of n] by auto

lemma capacity_after_Suc:
  "capacity_after (Suc n) = (if n < capacity_after n then capacity_after n else max 1 (2 * n))"
  using capacity_after_ge [of n] by auto

lemma capacity_after_mono: "capacity_after n \<le> capacity_after (n + k)"
proof (induction k)
  case 0
  show ?case by simp
next
  case (Suc k)
  have "capacity_after (n + k) \<le> capacity_after (Suc (n + k))"
    using capacity_after_ge [of "n + k"]
    by (simp add: capacity_after_Suc del: capacity_after.simps) arith
  with Suc show ?case by simp
qed

text \<open>\<^verbatim>\<open>EmplaceBack\<close> on a vector that satisfies the invariant, when the size of the new
  block does not wrap.\<close>

lemma EmplaceBack_mk:
  assumes "j = 0 \<Longrightarrow> fits T (max 1 (2 * length xs))"
  shows "EmplaceBack T (mk_vector xs j) args =
     (if 0 < j then (case args (map Some xs @ replicate j None) of
                       None \<Rightarrow> Thrown (mk_vector xs j, [])
                     | Some x \<Rightarrow> Ok (mk_vector (xs @ [x]) (j - 1), length xs))
      else if bad_alloc T (grown (length xs)) then Thrown (mk_vector xs 0, [])
      else case args (map Some xs) of
        None \<Rightarrow> Thrown (mk_vector xs 0, replicate (grown (length xs)) None)
      | Some x \<Rightarrow>
          if transfer_throws T xs
          then Thrown (mk_vector (left_behind T xs) 0,
                 replicate (length xs) None @ Some x # replicate (grown (length xs) - Suc (length xs)) None)
          else Ok (mk_vector (xs @ [x]) (grown (length xs) - Suc (length xs)), length xs))"
proof (cases j)
  case 0
  note g = grown_fits [OF assms [OF 0]]
  have lt: "length xs < grown (length xs)" by (rule g)
  then have nlt: "\<not> grown (length xs) < length xs" by simp
  from lt have m: "\<lparr>m_data = \<lparr>m_buffer = Some (map Some xs @ Some x
                     # replicate (grown (length xs) - Suc (length xs)) None),
                   m_capacity = grown (length xs)\<rparr>,
            m_size = Suc (length xs)\<rparr> = mk_vector (xs @ [x]) (grown (length xs) - Suc (length xs))"
    for x :: 'a
    by (simp add: mk_vector_def)
  from 0 lt nlt show ?thesis
    by (simp add: EmplaceBack_full g(3,5) m split: option.splits)
next
  case (Suc j')
  then show ?thesis by (simp add: EmplaceBack_spare split: option.splits)
qed

lemma EmplaceBack_Ok_arg:
  "EmplaceBack T v args = Ok r \<Longrightarrow> args (slots v) \<noteq> None"
  by (auto simp add: EmplaceBack_def split: if_splits option.splits outcome.splits)

lemma EmplaceBack_all_run:
  assumes "EmplaceBack_all T (mk_vector xs j) as = Ok w"
    and "length xs + j = capacity_after (length xs)"
    and "fits T (capacity_after (length xs + length as))"
  shows "w = mk_vector (xs @ map the as)
               (capacity_after (length xs + length as) - (length xs + length as))"
  using assms
proof (induction as arbitrary: xs j)
  case Nil
  then have "j = capacity_after (length xs) - length xs" "mk_vector xs j = w" by simp_all
  then show ?case by simp
next
  case (Cons a as)
  from Cons.prems(1) obtain v' i where e: "EmplaceBack T (mk_vector xs j) (\<lambda>b. a) = Ok (v', i)"
    and r: "EmplaceBack_all T v' as = Ok w"
    by (auto split: outcome.splits)
  from EmplaceBack_Ok_arg [OF e] obtain x where a: "a = Some x" by auto
  have f: "fits T (max 1 (2 * length xs))" if "j = 0"
  proof -
    from that Cons.prems(2) have "capacity_after (Suc (length xs)) = max 1 (2 * length xs)"
      by (simp add: capacity_after_Suc del: capacity_after.simps)
    moreover have "capacity_after (Suc (length xs)) \<le> capacity_after (Suc (length xs) + length as)"
      by (rule capacity_after_mono)
    ultimately have "max 1 (2 * length xs) \<le> capacity_after (length xs + length (a # as))"
      by simp
    with Cons.prems(3) show ?thesis by (rule fits_mono)
  qed
  have g: "grown (length xs) = max 1 (2 * length xs)" if "j = 0"
    using grown_fits(1) [OF f [OF that]] .
  let ?j' = "capacity_after (Suc (length xs)) - Suc (length xs)"
  have cj: "?j' = (if 0 < j then j - 1 else grown (length xs) - Suc (length xs))"
  proof (cases "j = 0")
    case True
    with Cons.prems(2) g show ?thesis
      by (simp add: capacity_after_Suc del: capacity_after.simps)
  next
    case False
    with Cons.prems(2) show ?thesis
      by (simp add: capacity_after_Suc del: capacity_after.simps)
  qed
  have v': "v' = mk_vector (xs @ [x]) ?j'"
    using e unfolding a cj
    by (auto simp add: EmplaceBack_mk [OF f] simp del: capacity_after.simps split: if_splits)
  have "length (xs @ [x]) + ?j' = capacity_after (length (xs @ [x]))"
    using capacity_after_ge [of "Suc (length xs)"] by simp
  moreover from Cons.prems(3) have "fits T (capacity_after (length (xs @ [x]) + length as))"
    by simp
  ultimately show ?case
    using Cons.IH [OF r [unfolded v']] a by simp
qed

lemma EmplaceBack_all_total:
  assumes "list_all (\<lambda>a. a \<noteq> None) as" "\<And>n. \<not> bad_alloc T n" "\<And>ys. \<not> transfer_throws T ys"
    and "length xs + j = capacity_after (length xs)"
    and "fits T (capacity_after (length xs + length as))"
  shows "\<exists>w. EmplaceBack_all T (mk_vector xs j) as = Ok w"
  using assms(1,4,5)
proof (induction as arbitrary: xs j)
  case Nil
  show ?case by simp
next
  case (Cons a as)
  then obtain x where a: "a = Some x" and as: "list_all (\<lambda>a. a \<noteq> None) as" by auto
  have f: "fits T (max 1 (2 * length xs))" if "j = 0"
  proof -
    from that Cons.prems(2) have "capacity_after (Suc (length xs)) = max 1 (2 * length xs)"
      by (simp add: capacity_after_Suc del: capacity_after.simps)
    moreover have "capacity_after (Suc (length xs)) \<le> capacity_after (Suc (length xs) + length as)"
      by (rule capacity_after_mono)
    ultimately have "max 1 (2 * length xs) \<le> capacity_after (length xs + length (a # as))"
      by simp
    with Cons.prems(3) show ?thesis by (rule fits_mono)
  qed
  have g: "grown (length xs) = max 1 (2 * length xs)" if "j = 0"
    using grown_fits(1) [OF f [OF that]] .
  let ?j' = "capacity_after (Suc (length xs)) - Suc (length xs)"
  have cj: "?j' = (if 0 < j then j - 1 else grown (length xs) - Suc (length xs))"
  proof (cases "j = 0")
    case True
    with Cons.prems(2) g show ?thesis
      by (simp add: capacity_after_Suc del: capacity_after.simps)
  next
    case False
    with Cons.prems(2) show ?thesis
      by (simp add: capacity_after_Suc del: capacity_after.simps)
  qed
  have e: "EmplaceBack T (mk_vector xs j) (\<lambda>b. a) = Ok (mk_vector (xs @ [x]) ?j', length xs)"
    unfolding a cj by (simp add: EmplaceBack_mk [OF f] assms(2,3))
  have "length (xs @ [x]) + ?j' = capacity_after (length (xs @ [x]))"
    using capacity_after_ge [of "Suc (length xs)"] by simp
  moreover from Cons.prems(3) have "fits T (capacity_after (length (xs @ [x]) + length as))"
    by simp
  ultimately have "\<exists>w. EmplaceBack_all T (mk_vector (xs @ [x]) ?j') as = Ok w"
    by (rule Cons.IH [OF as])
  with e show ?case by simp
qed

lemma PushBack_all_eq:
  "PushBack_all T v vals = EmplaceBack_all T v (map (construct_from T) vals)"
  by (induction vals arbitrary: v) (auto simp add: PushBack_def split: outcome.splits)

lemma EmplaceBack_all_args:
  "EmplaceBack_all T v as = Ok w \<Longrightarrow> list_all (\<lambda>a. a \<noteq> None) as"
proof (induction as arbitrary: v)
  case Nil
  show ?case by simp
next
  case (Cons a as)
  from Cons.prems obtain v' i where e: "EmplaceBack T v (\<lambda>b. a) = Ok (v', i)"
    and r: "EmplaceBack_all T v' as = Ok w"
    by (auto split: outcome.splits)
  from EmplaceBack_Ok_arg [OF e] Cons.IH [OF r] show ?case by simp
qed

lemma construct_from_value: "construct_from T val = Some y \<Longrightarrow> fwd_value val = y"
  by (cases val) (auto split: if_splits)

lemma constructed_values:
  "list_all (\<lambda>a. a \<noteq> None) (map (construct_from T) vals) \<Longrightarrow>
   map the (map (construct_from T) vals) = map fwd_value vals"
proof (induction vals)
  case Nil
  show ?case by simp
next
  case (Cons val vals)
  then obtain y where "construct_from T val = Some y" by auto
  with construct_from_value [OF this] Cons show ?case by simp
qed



lemma move_only_simps [simp]:
  "move_raises move_only x = (x = 2)" "moved_from move_only x = 0" "uses_move move_only"
  "\<not> bad_alloc move_only n"
  by (simp_all add: move_only_def move_raises_def uses_move_def)

lemma throwing_copy_simps [simp]:
  "copy_throws throwing_copy x = (x = 1)" "\<not> uses_move throwing_copy"
  "\<not> bad_alloc throwing_copy n" "\<not> move_raises throwing_copy x"
  by (simp_all add: throwing_copy_def move_raises_def uses_move_def)

lemma Emplace_full_ok:
  assumes "pos \<le> length xs" "fits T (max 1 (2 * length xs))" "\<not> bad_alloc T (grown (length xs))"
    "\<not> transfer_throws T xs" "args (map Some xs) = Some y"
  shows "Emplace T (mk_vector xs 0) pos args
     = Ok (mk_vector (take pos xs @ y # drop pos xs) (grown (length xs) - Suc (length xs)), pos)"
proof -
  have "transfer_throws T xs = (transfer_throws T (take pos xs) \<or> transfer_throws T (drop pos xs))"
    using transfer_throws_append [of T "take pos xs" "drop pos xs"] by simp
  with assms(4) have t: "\<not> transfer_throws T (take pos xs)" "\<not> transfer_throws T (drop pos xs)"
    by simp_all
  note g = grown_fits [OF assms(2)]
  have lt: "length xs < grown (length xs)" by (rule g)
  with assms(1) have m: "min (length xs) pos = pos" and plt: "\<not> grown (length xs) \<le> pos"
    by simp_all
  from assms(1,3,5) t lt plt show ?thesis
    by (simp add: Emplace_def Emplace_grow_eq g(5))
       (simp add: mk_vector_def m)
qed

text \<open>\<^verbatim>\<open>EmplaceBack\<close> has no \<^verbatim>\<open>try\<close> block around the transfer: when the copy of an old
  element throws, the new element, already constructed in the new block, is still there
  when the block is released.\<close>

lemma PushBack_failure_leaves_new_element:
  "PushBack throwing_copy (mk_vector [1] 0) (\<lambda>b. Lvalue 5)
     = Thrown (mk_vector [1] 0, [None, Some 5])"
  by (simp add: PushBack_def EmplaceBack_mk transfer_throws_def grown_def)

section \<open>Insertion in place, erasure and Resize on vectors that satisfy the invariant\<close>

lemma move_back_shape:
  assumes "\<not> list_ex (move_raises T) bs"
  shows "move_back T (pre @ map Some bs @ Some z # post) (length pre) (length bs)
           (Suc (length pre + length bs))
     = Ok (pre @ Some (if bs = [] then z else moved_from T (hd bs)) # map Some bs @ post)"
  using assms
proof (induction bs arbitrary: z post rule: rev_induct)
  case Nil
  show ?case by simp
next
  case (snoc b bs)
  let ?blk = "pre @ map Some bs @ Some b # Some z # post"
  have blk: "pre @ map Some (bs @ [b]) @ Some z # post = ?blk" by simp
  have src: "?blk ! (length pre + length bs) = Some b"
    by (simp add: nth_append)
  have dst: "?blk ! (Suc (length pre + length bs)) = Some z"
    by (simp add: nth_append)
  have upd: "?blk[Suc (length pre + length bs) := Some b,
                  length pre + length bs := Some (moved_from T b)]
      = pre @ map Some bs @ Some (moved_from T b) # Some b # post"
    by (simp add: list_update_append)
  from snoc.prems have nb: "\<not> move_raises T b" and nbs: "\<not> list_ex (move_raises T) bs"
    by simp_all
  have "move_back T ?blk (length pre) (Suc (length bs)) (Suc (Suc (length pre + length bs)))
      = move_back T (pre @ map Some bs @ Some (moved_from T b) # Some b # post)
          (length pre) (length bs) (Suc (length pre + length bs))"
    using src dst nb by (simp add: upd)
  also have "\<dots> = Ok (pre @ Some (if bs = [] then moved_from T b else moved_from T (hd bs))
      # map Some bs @ Some b # post)"
    by (rule snoc.IH [OF nbs])
  finally show ?case
    unfolding blk by (cases bs) simp_all
qed

lemma update_after_length: "(p @ a # b # q)[Suc (length p) := c] = p @ a # c # q"
  by (simp add: list_update_append)

lemma move_forward_shape:
  assumes "\<not> list_ex (move_raises T) ys"
  shows "move_forward T (pre @ Some a # map Some ys @ post) (Suc (length pre)) (length ys) (length pre)
     = Ok (pre @ map Some ys @ Some (if ys = [] then a else moved_from T (last ys)) # post)"
  using assms
proof (induction ys arbitrary: pre a)
  case Nil
  show ?case by simp
next
  case (Cons y ys)
  let ?blk = "pre @ Some a # Some y # map Some ys @ post"
  have upd: "?blk[length pre := Some y, Suc (length pre) := Some (moved_from T y)]
      = (pre @ [Some y]) @ Some (moved_from T y) # map Some ys @ post"
    by (simp add: list_update_append)
  from Cons.prems have ny: "\<not> move_raises T y" and nys: "\<not> list_ex (move_raises T) ys"
    by simp_all
  have "move_forward T ?blk (Suc (length pre)) (Suc (length ys)) (length pre)
      = move_forward T ((pre @ [Some y]) @ Some (moved_from T y) # map Some ys @ post)
          (Suc (length (pre @ [Some y]))) (length ys) (length (pre @ [Some y]))"
    using ny by (simp add: nth_append update_after_length)
  also have "\<dots> = Ok ((pre @ [Some y]) @ map Some ys
      @ Some (if ys = [] then moved_from T y else moved_from T (last ys)) # post)"
    by (rule Cons.IH [OF nys])
  finally show ?case by simp
qed

lemma Erase_ok:
  assumes "\<not> list_ex (move_raises T) ys"
  shows "Erase T (mk_vector (as @ a # ys) k) (length as) = Ok (mk_vector (as @ ys) (Suc k), length as)"
proof -
  let ?z = "if ys = [] then a else moved_from T (last ys)"
  have m: "move_forward T (map Some as @ Some a # map Some ys @ replicate k None)
        (Suc (length as)) (length ys) (length as)
      = Ok (map Some as @ map Some ys @ Some ?z # replicate k None)"
    using move_forward_shape [OF assms, of "map Some as" a "replicate k None"] by simp
  have d: "destroy_at (map Some as @ map Some ys @ Some ?z # replicate k None) (length as + length ys)
      = Some (map Some as @ map Some ys @ None # replicate k None)"
    using destroy_at_shape [of "map Some as @ map Some ys" ?z "replicate k None"] by simp
  have w: "(with_slots (mk_vector (as @ a # ys) k) (map Some as @ map Some ys @ None # replicate k None))
      \<lparr>m_size := length as + length ys\<rparr> = mk_vector (as @ ys) (Suc k)"
    using with_slots_size_mk [of "map Some (as @ ys) @ replicate (Suc k) None" "as @ a # ys" k
        "as @ ys" "Suc k"]
    by simp
  show ?thesis
    by (simp add: Erase_def std_move_def m d w)
qed

text \<open>Insertion before the end with spare capacity.  The new value is constructed from
  the block as the shift has left it: the slot at the position holds the moved-from state
  of the element that was there, and every later element has moved on by one slot.\<close>

lemma Emplace_spare_ok:
  assumes "\<not> list_ex (move_raises T) (bs @ [x])"
    "args (map Some as @ Some (moved_from T (hd (bs @ [x]))) # map Some bs @ Some x
             # replicate k None) = Some y"
    "\<not> move_raises T y"
  shows "Emplace T (mk_vector (as @ bs @ [x]) (Suc k)) (length as) args
     = Ok (mk_vector (as @ y # bs @ [x]) k, length as)"
proof -
  let ?n = "length as + length bs"
  let ?post = "replicate k (None :: 'a option)"
  let ?blk = "map Some as @ map Some bs @ Some x # None # ?post"
  from assms(1) have nb: "\<not> list_ex (move_raises T) bs" and nx: "\<not> move_raises T x"
    by simp_all
  have l1: "?blk ! ?n = Some x"
    using nth_append_length [of "map Some as @ map Some bs" "Some x" "None # ?post"] by simp
  have u1: "?blk[?n := Some (moved_from T x), Suc ?n := Some x]
      = map Some as @ map Some bs @ Some (moved_from T x) # Some x # ?post"
    using update_at_length [of "map Some as @ map Some bs" ?n "Some x" "None # ?post"
        "Some (moved_from T x)"]
      update_after_length [of "map Some as @ map Some bs" "Some (moved_from T x)" None ?post "Some x"]
    by simp
  let ?z = "if bs = [] then moved_from T x else moved_from T (hd bs)"
  have z: "moved_from T (hd (bs @ [x])) = ?z"
    by (cases bs) simp_all
  have a: "args (map Some as @ Some ?z # map Some bs @ Some x # ?post) = Some y"
    using assms(2) unfolding z .
  have mb: "move_back T (map Some as @ map Some bs @ Some (moved_from T x) # Some x # ?post)
        (length as) (length bs) (Suc ?n)
      = Ok (map Some as @ Some ?z # map Some bs @ Some x # ?post)"
    using move_back_shape [OF nb, of "map Some as" "moved_from T x" "Some x # ?post"] by simp
  have l2: "(map Some as @ Some ?z # map Some bs @ Some x # ?post) ! length as = Some ?z"
    using nth_append_length [of "map Some as" "Some ?z" "map Some bs @ Some x # ?post"] by simp
  have u2: "(map Some as @ Some ?z # map Some bs @ Some x # ?post)[length as := Some y]
      = map Some as @ Some y # map Some bs @ Some x # ?post"
    using update_at_length [of "map Some as" "length as" "Some ?z" "map Some bs @ Some x # ?post" "Some y"]
    by simp
  have w: "(with_slots (mk_vector (as @ bs @ [x]) (Suc k))
        (map Some as @ Some y # map Some bs @ Some x # ?post))\<lparr>m_size := Suc (Suc ?n)\<rparr>
      = mk_vector (as @ y # bs @ [x]) k"
    using with_slots_size_mk [of "map Some (as @ y # bs @ [x]) @ ?post" "as @ bs @ [x]" "Suc k"
        "as @ y # bs @ [x]" k]
    by simp
  have s: "Emplace_shift T (mk_vector (as @ bs @ [x]) (Suc k)) (length as) args
      = Ok (with_slots (mk_vector (as @ bs @ [x]) (Suc k))
             (map Some as @ Some y # map Some bs @ Some x # ?post))"
    using assms(3) nx
    by (simp add: Emplace_shift_def move_backward_def l1 u1 mb a RawMemory_at_def l2 u2)
  show ?thesis
    by (simp add: Emplace_def s with_slots_def w [unfolded with_slots_def])
qed

text \<open>\<^verbatim>\<open>v.Insert(v.begin(), v[2])\<close> on \<open>[1, 2, 3]\<close> with spare capacity: the argument
  refers to the slot at index 2, which holds 2 when the new value is constructed.\<close>

lemma Insert_of_an_element:
  "Insert plain (mk_vector [1, 2, 3] 1) 0 (\<lambda>b. Lvalue (the (b ! 2)))
     = Ok (mk_vector [2, 1, 2, 3] 0, 0)"
  using Emplace_spare_ok [where T = plain and as = "[]" and bs = "[1, 2]" and x = 3 and k = 0
      and y = 2 and args = "\<lambda>b. construct_from plain (Lvalue (the (b ! 2)))"]
  by (simp add: Insert_def)

lemma Emplace_spare_end:
  "Emplace T (mk_vector (as @ [x]) (Suc k)) (Suc (length as)) args
     = (if move_raises T x then Thrown (mk_vector (as @ [x]) (Suc k), []) else Violation)"
proof -
  have "(map Some as @ Some x # None # replicate k None) ! length as = Some x"
    using nth_append_length [of "map Some as" "Some x" "None # replicate k None"] by simp
  then show ?thesis
    by (simp add: Emplace_def Emplace_shift_def move_backward_def)
qed

lemma insert_then_erase_spare:
  assumes "\<not> list_ex (move_raises T) (bs @ [x])"
    "construct_from T (val (map Some as @ Some (moved_from T (hd (bs @ [x]))) # map Some bs
        @ Some x # replicate k None)) = Some y"
    "\<not> move_raises T y"
  shows "insert_then_erase T (mk_vector (as @ bs @ [x]) (Suc k)) (length as) val
     = Ok (mk_vector (as @ bs @ [x]) (Suc k), length as)"
  using Erase_ok [of T "bs @ [x]" as y k] assms(1)
    Emplace_spare_ok [OF assms(1), of "\<lambda>b. construct_from T (val b)" as k y, OF assms(2,3)]
  by (simp add: insert_then_erase_def Insert_def)

lemma insert_then_erase_full:
  assumes "pos \<le> length xs" "\<not> list_ex (move_raises T) (drop pos xs)"
    "construct_from T (val (map Some xs)) = Some y" "fits T (max 1 (2 * length xs))"
    "\<not> bad_alloc T (grown (length xs))" "\<not> transfer_throws T xs"
  shows "insert_then_erase T (mk_vector xs 0) pos val
     = Ok (mk_vector xs (grown (length xs) - length xs), pos)"
proof -
  let ?k = "grown (length xs) - Suc (length xs)"
  have lt: "length xs < grown (length xs)" by (rule grown_fits [OF assms(4)])
  from assms(1) have la: "length (take pos xs) = pos" by simp
  have "Erase T (mk_vector (take pos xs @ y # drop pos xs) ?k) (length (take pos xs))
      = Ok (mk_vector (take pos xs @ drop pos xs) (Suc ?k), length (take pos xs))"
    by (rule Erase_ok [OF assms(2)])
  moreover from lt have "Suc ?k = grown (length xs) - length xs" by simp
  ultimately have "Erase T (mk_vector (take pos xs @ y # drop pos xs) ?k) pos
      = Ok (mk_vector xs (grown (length xs) - length xs), pos)"
    unfolding la by simp
  moreover have "Emplace T (mk_vector xs 0) pos (\<lambda>b. construct_from T (val b))
      = Ok (mk_vector (take pos xs @ y # drop pos xs) ?k, pos)"
    using assms by (intro Emplace_full_ok) simp_all
  ultimately show ?thesis
    by (simp add: insert_then_erase_def Insert_def)
qed

lemma Vector_at_elems:
  assumes "vector_inv v" "i < Size v"
  shows "Vector_at v i = Some (elems v ! i)"
proof -
  obtain xs k where v: "v = mk_vector xs k"
    using vector_inv_repr [OF assms(1)] by blast
  from assms(2) show ?thesis
    unfolding v by (simp add: Vector_at_def RawMemory_at_def nth_append)
qed

lemma Resize_shrink:
  assumes "new_size \<le> length xs"
  shows "Resize T (mk_vector xs k) new_size
     = Some (Ok (mk_vector (take new_size xs) (length xs - new_size + k)))"
proof (cases "new_size = length xs")
  case True
  have "(mk_vector xs k)\<lparr>m_size := length xs\<rparr> = mk_vector xs k"
    by (simp add: mk_vector_def)
  with True show ?thesis by (simp add: Resize_def)
next
  case False
  with assms have lt: "new_size < length xs" by simp
  let ?a = "take new_size xs" and ?b = "drop new_size xs"
  have blk: "map Some xs @ replicate k None = map Some ?a @ map Some ?b @ replicate k None"
    by (simp flip: map_append)
  have la: "length (map Some ?a) = new_size" and lb: "length ?b = length xs - new_size"
    using lt by simp_all
  have d: "destroy_n (map Some xs @ replicate k None) new_size (length xs - new_size)
      = Some (map Some ?a @ replicate (length xs - new_size) None @ replicate k None)"
    using destroy_n_shape [of "map Some ?a" ?b "replicate k None"]
    unfolding blk la lb .
  have w: "(with_slots (mk_vector xs k)
        (map Some ?a @ replicate (length xs - new_size) None @ replicate k None))
        \<lparr>m_size := new_size\<rparr> = mk_vector ?a (length xs - new_size + k)"
    using with_slots_size_mk [of "map Some ?a @ replicate (length xs - new_size + k) None" xs k
        ?a "length xs - new_size + k"] lt
    by (simp add: replicate_add [symmetric])
  from lt show ?thesis
    by (simp add: Resize_def d w)
qed

lemma Resize_fill:
  assumes "length xs < new_size" "new_size \<le> length xs + k"
  shows "Resize T (mk_vector xs k) new_size
     = Some (if value_init_throws T then Thrown (mk_vector xs k, [])
             else Ok (mk_vector (xs @ replicate (new_size - length xs) (value_init T))
                        (length xs + k - new_size)))"
proof -
  let ?m = "new_size - length xs"
  let ?j = "length xs + k - new_size"
  have k: "replicate k (None :: 'a option) = replicate ?m None @ replicate ?j None"
    using assms by (simp add: replicate_add [symmetric])
  have u: "uninitialized_value_construct_n T (map Some xs @ replicate k None) (length xs) ?m
      = (if value_init_throws T \<and> 0 < ?m then Thrown (map Some xs @ replicate k None)
         else Ok (map Some xs @ replicate ?m (Some (value_init T)) @ replicate ?j None))"
    using uvc_shape [of T "map Some xs" ?m "replicate ?j None"] unfolding k by simp
  have w1: "with_slots (mk_vector xs k) (map Some xs @ replicate k None) = mk_vector xs k"
    by (simp add: with_slots_def with_cells_def mk_vector_def)
  have w2: "(with_slots (mk_vector xs k)
        (map Some xs @ replicate ?m (Some (value_init T)) @ replicate ?j None))\<lparr>m_size := new_size\<rparr>
      = mk_vector (xs @ replicate ?m (value_init T)) ?j"
    using with_slots_size_mk [of "map Some (xs @ replicate ?m (value_init T)) @ replicate ?j None"
        xs k "xs @ replicate ?m (value_init T)" ?j] assms
    by (simp add: map_replicate_const)
  from assms show ?thesis
    by (simp add: Resize_def Resize_loop_done u w1 w2)
qed

lemma Resize_grow:
  assumes "length xs + k < new_size" "fits T ((if xs = [] then 1 else length xs + k) * 2)"
  shows "Resize T (mk_vector xs k) new_size
     = (let c = (if xs = [] then 1 else length xs + k) in
        if c * 2 \<le> length xs + k then None
        else if bad_alloc T (c * 2) then Some (Thrown (mk_vector xs k, []))
        else if transfer_throws T xs
        then Some (Thrown (mk_vector (left_behind T xs) k, replicate (c * 2) None))
        else if c * 2 < new_size then None
        else if value_init_throws T then Some (Thrown (mk_vector xs (c * 2 - length xs), []))
        else Some (Ok (mk_vector (xs @ replicate (new_size - length xs) (value_init T))
                         (c * 2 - new_size))))"
proof -
  let ?n = "length xs"
  let ?c = "if xs = [] then 1 else ?n + k"
  have c: "(if Size (mk_vector xs k) = 0 then 1 else Capacity (mk_vector xs k)) = ?c"
    by simp
  from assms have gt: "?n < new_size" by simp
  have md: "?c * 2 mod 2 ^ 64 = ?c * 2"
    using fits_lt [OF assms(2)] by simp
  show ?thesis
  proof (cases "?c * 2 \<le> ?n + k")
    case True
    have "Resize_loop T (mk_vector xs k) new_size ?c = None"
      using assms(1) True by (intro Resize_loop_stuck) (simp_all only: md Capacity_mk_vector)
    with gt True show ?thesis
      unfolding Resize_def c by (simp add: Let_def)
  next
    case False
    then have r: "Reserve T (mk_vector xs k) (?c * 2)
        = (if bad_alloc T (?c * 2) then Thrown (mk_vector xs k, [])
           else if transfer_throws T xs
           then Thrown (mk_vector (left_behind T xs) k, replicate (?c * 2) None)
           else Ok (mk_vector xs (?c * 2 - ?n)))"
      by (simp add: Reserve_eq [OF assms(2)])
    have step: "Resize_loop T (mk_vector xs k) new_size ?c
        = (case Reserve T (mk_vector xs k) (?c * 2) of
             Violation \<Rightarrow> Some Violation
           | Thrown e \<Rightarrow> Some (Thrown e)
           | Ok v' \<Rightarrow> Resize_loop T v' new_size ?c)"
      using assms(1) by (subst Resize_loop.simps) (simp only: md Capacity_mk_vector if_True)
    from False have cap: "Capacity (mk_vector xs (?c * 2 - ?n)) = ?c * 2"
      by (simp split: if_splits)
    show ?thesis
    proof (cases "bad_alloc T (?c * 2) \<or> transfer_throws T xs")
      case True
      with gt False show ?thesis
        unfolding Resize_def c step r by (auto simp add: Let_def)
    next
      case nothrow: False
      show ?thesis
      proof (cases "?c * 2 < new_size")
        case True
        have "Resize_loop T (mk_vector xs (?c * 2 - ?n)) new_size ?c = None"
          using True cap by (intro Resize_loop_stuck) (simp_all only: md order_refl)
        with gt False nothrow True show ?thesis
          unfolding Resize_def c step r by (simp add: Let_def)
      next
        case le: False
        then have d: "Resize_loop T (mk_vector xs (?c * 2 - ?n)) new_size ?c
            = Some (Ok (mk_vector xs (?c * 2 - ?n)))"
          using cap by (intro Resize_loop_done) simp
        have f: "Resize T (mk_vector xs (?c * 2 - ?n)) new_size
            = Some (if value_init_throws T then Thrown (mk_vector xs (?c * 2 - ?n), [])
                    else Ok (mk_vector (xs @ replicate (new_size - ?n) (value_init T))
                               (?n + (?c * 2 - ?n) - new_size)))"
          using gt le False by (intro Resize_fill) (simp_all split: if_splits)
        have e: "?n + (?c * 2 - ?n) - new_size = ?c * 2 - new_size"
          using False by (simp split: if_splits)
        have "Resize T (mk_vector xs k) new_size = Resize T (mk_vector xs (?c * 2 - ?n)) new_size"
          using gt le False nothrow cap
          unfolding Resize_def c step r
          by (simp add: d Resize_loop_done)
        with f e nothrow le False show ?thesis
          by (simp add: Let_def)
      qed
    qed
  qed
qed

lemma Vector_move_mk: "Vector_move (mk_vector xs k) = (mk_vector xs k, Vector_default)"
  by (simp add: Vector_move_def RawMemory_move_def RawMemory_Swap_def Vector_default_def
      RawMemory_default_def mk_vector_def)

section \<open>The claims\<close>

subsection \<open>C4: the source of a moved RawMemory\<close>

text \<open>
  C4 as stated, at a concrete input: after the move assignment of a block of capacity 2 to
  a distinct block of capacity 1, the source is not empty (its address is not null and its
  capacity is 1, not 0).
\<close>

theorem RawMemory_move_assign_source_not_empty:
  "\<not> (m_buffer (snd (RawMemory_move_assign
            \<lparr>m_buffer = Some [None :: nat option], m_capacity = 1\<rparr>
            \<lparr>m_buffer = Some [None, None], m_capacity = 2\<rparr>)) = None
      \<and> m_capacity (snd (RawMemory_move_assign
            \<lparr>m_buffer = Some [None :: nat option], m_capacity = 1\<rparr>
            \<lparr>m_buffer = Some [None, None], m_capacity = 2\<rparr>)) = 0)"
  by (simp add: RawMemory_move_assign_def RawMemory_Swap_def)

text \<open>
  C4, amended: after move construction of a RawMemory the source has a null address and
  capacity zero, and the new block is what the source was.  Move assignment between two
  distinct blocks exchanges them: the source is left with the address and the capacity
  that the target had before.
\<close>

theorem RawMemory_move_leaves_source:
  "m_buffer (snd (RawMemory_move other)) = None \<and>
   m_capacity (snd (RawMemory_move other)) = 0 \<and>
   fst (RawMemory_move other) = other \<and>
   RawMemory_move_assign this rhs = (rhs, this)"
  by (simp add: RawMemory_move_def RawMemory_move_assign_def RawMemory_Swap_def
      RawMemory_default_def)

subsection \<open>C1: PopBack\<close>

text \<open>
  C1 says that pop_back on a non-empty sequence destructs the element at index
  \<open>size - 1\<close> and decrements the size.  \<^verbatim>\<open>PopBack\<close> calls
  \<^verbatim>\<open>std::destroy_at(data_.GetAddress() + size_)\<close>: on every non-empty vector that
  satisfies the invariant, with or without spare capacity, the slot it destroys is the one
  after the last element, which holds no object or lies outside the block, and the last
  element is not destroyed.  \<^verbatim>\<open>Erase\<close> at the last position uses
  \<^verbatim>\<open>data_.GetAddress() + Size() - 1\<close> and does what C1 describes.
\<close>

theorem PopBack_destroys_slot_at_size:
  "PopBack (mk_vector (xs @ [x]) spare) = None \<and>
   Erase T (mk_vector (xs @ [x]) spare) (length xs) = Ok (mk_vector xs (Suc spare), length xs)"
proof -
  have "PopBack (mk_vector (xs @ [x]) spare) = None"
    by (cases spare) (simp_all add: PopBack_def destroy_at_def nth_append)
  then show ?thesis by (simp add: Erase_last)
qed

subsection \<open>C2: Resize\<close>

text \<open>
  C2 says that resize terminates for every sequence and every new size.  The loop of
  \<^verbatim>\<open>Resize\<close> calls \<^verbatim>\<open>Reserve(capacity * 2)\<close> with a local \<^verbatim>\<open>capacity\<close> it never
  updates.  On a new, empty vector \<^verbatim>\<open>Resize(3)\<close> reserves 2 slots and then asks for 2
  slots again and again: it never returns, whatever the element type, unless the first
  allocation fails.  The same happens on the vector that \<^verbatim>\<open>Vector<int>(1)\<close> builds.
\<close>

theorem Resize_never_returns:
  "Resize T Vector_default 3 = (if bad_alloc T 2 then Some (Thrown (Vector_default, [])) else None)
   \<and> Vector_sized plain 1 = Ok (mk_vector [0] 0)
   \<and> Resize plain (mk_vector [0] 0) 3 = None"
proof -
  let ?v = "\<lparr>m_data = \<lparr>m_buffer = Some (replicate (block_slots T 2) None), m_capacity = 2\<rparr>,
             m_size = 0\<rparr>"
  have step: "Resize_loop T (mk_vector [] 0) 3 (Suc 0)
      = (case Reserve T (mk_vector [] 0) 2 of
           Violation \<Rightarrow> Some Violation
         | Thrown e \<Rightarrow> Some (Thrown e)
         | Ok v' \<Rightarrow> Resize_loop T v' 3 (Suc 0))"
    by (subst Resize_loop.simps) simp
  have stuck: "Resize_loop T ?v 3 (Suc 0) = None"
    by (rule Resize_loop_stuck) (simp_all add: Capacity_def)
  have d: "Resize T (mk_vector [] 0) 3
      = (if bad_alloc T 2 then Some (Thrown (mk_vector [] 0, [])) else None)"
    by (simp add: Resize_def step Reserve_empty stuck)
  have s: "Vector_sized plain 1 = Ok (mk_vector [0] 0)"
    by (simp add: Vector_sized_eq block_slots_fits)
  have r: "Resize plain (mk_vector [0] 0) 3 = None"
    by (simp add: Resize_grow)
  from d s r show ?thesis
    by (simp add: Vector_default_mk)
qed

subsection \<open>C3: insertion at the end\<close>

text \<open>
  C3 says that insert at \<^verbatim>\<open>end()\<close> appends on every sequence, the empty one and those
  with spare capacity included.  On an empty vector with spare capacity (what
  \<^verbatim>\<open>Reserve(1)\<close> makes of a new vector) the branch of \<^verbatim>\<open>Emplace\<close> for
  \<^verbatim>\<open>Size() < Capacity()\<close> reads \<^verbatim>\<open>*(end() - 1)\<close>, the slot before the block: a
  violation, for every element type, every spare capacity and every value.  (On a
  non-empty vector with spare capacity the same branch hands \<^verbatim>\<open>std::move_backward\<close> the
  range from \<^verbatim>\<open>end()\<close> to \<^verbatim>\<open>end() - 1\<close>, lemma \<open>Emplace_spare_end\<close>; insertion at
  the end of a full vector and insertion before the end do insert, lemmas
  \<open>Emplace_full_ok\<close> and \<open>Emplace_spare_ok\<close>.)
\<close>

theorem Insert_at_end_of_empty_with_spare_capacity:
  "Reserve plain Vector_default 1 = Ok (mk_vector [] 1) \<and>
   Insert T (mk_vector [] (Suc k)) (Size (mk_vector [] (Suc k))) val = Violation"
proof -
  have "Reserve plain Vector_default 1 = Ok (mk_vector [] 1)"
    by (simp add: Vector_default_mk Reserve_eq)
  then show ?thesis
    by (simp add: Insert_def Emplace_def Emplace_shift_def)
qed

subsection \<open>C7: insert, then erase\<close>

text \<open>
  C7 says that insert at a valid position followed by erase at the returned position gives
  back the sequence.  On the empty vector with spare capacity, at its only valid position
  \<^verbatim>\<open>begin() = end()\<close>, the insertion is a violation (the read before the block of C3),
  so the composition does not return the sequence.  (Before the end, and at every position
  of a full vector, it does give back the elements: lemmas \<open>insert_then_erase_spare\<close> and
  \<open>insert_then_erase_full\<close>.)
\<close>

theorem Erase_after_Insert_at_end_fails:
  "insert_then_erase T (mk_vector [] (Suc k)) 0 val = Violation"
  by (simp add: insert_then_erase_def Insert_def Emplace_def Emplace_shift_def)

subsection \<open>C9: the invariant\<close>

text \<open>
  C9 says that every public operation preserves the invariant, for both operands of move
  assignment too.  \<^verbatim>\<open>operator=(Vector&&)\<close> move-assigns \<^verbatim>\<open>data_\<close>, which swaps the
  two blocks, and sets \<^verbatim>\<open>rhs.size_ = 0\<close>: when the target held elements, the source
  ends with size 0 and a block whose first slots still hold them.  (\<^verbatim>\<open>Swap\<close> exchanges
  the sizes too, and the move constructor starts from an empty block: lemmas
  \<open>Vector_Swap_mk\<close> and \<open>Vector_move_mk\<close>.)
\<close>

theorem Vector_move_assign_breaks_invariant:
  "vector_inv (mk_vector (x # xs) k) \<and> vector_inv (mk_vector ys l) \<and>
   \<not> vector_inv (snd (Vector_move_assign (mk_vector (x # xs) k) (mk_vector ys l)))"
  by (simp add: Vector_move_assign_def RawMemory_move_assign_def RawMemory_Swap_def)
     (simp add: vector_inv_def slots_def cells_def mk_vector_def)

subsection \<open>C10: the capacity of a constructed vector\<close>




subsection \<open>C6: copy assignment\<close>

text \<open>
  C6: after a copy assignment \<open>a = b\<close> between distinct vectors that returns, \<open>a\<close> has
  the size and the elements of \<open>b\<close>; when the size of \<open>b\<close> is at most the capacity of
  \<open>a\<close> the capacity is unchanged and the allocator is not used (the outcome is the same
  when every allocation fails); when it exceeds the capacity, \<open>a\<close> becomes the vector
  that copy construction builds from \<open>b\<close>.  The assignment returns whenever no element
  copy throws and, in the second case, the allocation succeeds, for a block whose size in
  bytes \<^verbatim>\<open>Allocate\<close> computes without wrap-around (the block of \<open>b\<close>, which has at
  least as many slots, exists).
\<close>

theorem copy_assign_correct:
  assumes "vector_inv a" "vector_inv b"
  shows "(Vector_copy_assign T a b = Ok a' \<longrightarrow>
            Size a' = Size b \<and> elems a' = elems b \<and> vector_inv a'
            \<and> (Size b \<le> Capacity a \<longrightarrow> Capacity a' = Capacity a)
            \<and> (Capacity a < Size b \<longrightarrow> Vector_copy T b = Ok a'))
       \<and> (\<not> list_ex (copy_throws T) (elems b)
            \<and> (Capacity a < Size b \<longrightarrow> \<not> bad_alloc T (Size b) \<and> fits T (Size b))
            \<longrightarrow> (\<exists>a'. Vector_copy_assign T a b = Ok a'))
       \<and> (Size b \<le> Capacity a \<longrightarrow>
            Vector_copy_assign (T\<lparr>bad_alloc := \<lambda>n. True\<rparr>) a b = Vector_copy_assign T a b)"
proof -
  obtain xs k where a: "a = mk_vector xs k"
    using vector_inv_repr [OF assms(1)] by blast
  obtain ys l where b: "b = mk_vector ys l"
    using vector_inv_repr [OF assms(2)] by blast
  let ?T = "T\<lparr>bad_alloc := \<lambda>n. True\<rparr>"
  consider (realloc) "length xs + k < length ys"
    | (shrink) "length ys < length xs"
    | (fill) "length xs \<le> length ys" "length ys \<le> length xs + k"
    by linarith
  then show ?thesis
  proof cases
    case realloc
    then have ne: "ys \<noteq> []" by auto
    from realloc ne show ?thesis
      unfolding a b
      by (auto simp add: copy_assign_realloc Vector_copy_eq block_slots_fits split: if_splits)
  next
    case shrink
    from shrink show ?thesis
      unfolding a b
      by (auto simp add: copy_assign_shrink [of ys xs T] copy_assign_shrink [of ys xs ?T]
          split: if_splits)
  next
    case fill
    have t: "list_ex (copy_throws T) ys
        = (list_ex (copy_throws T) (take (length xs) ys) \<or> list_ex (copy_throws T) (drop (length xs) ys))"
      using list_ex_append [of "copy_throws T" "take (length xs) ys" "drop (length xs) ys"]
      by simp
    from fill show ?thesis
      unfolding a b
      by (auto simp add: copy_assign_fill [of xs ys k T] copy_assign_fill [of xs ys k ?T] t
          split: if_splits)
  qed
qed

text \<open>The theorem at \<open>[1, 2]\<close> with capacity 5 and with capacity 2, assigned from
  \<open>[3, 4, 5, 6, 7]\<close>.\<close>

theorem copy_assign_correct_witness:
  "vector_inv (mk_vector [1, 2] 3) \<and> vector_inv (mk_vector [3, 4, 5, 6, 7] 0)
   \<and> vector_inv (mk_vector [1, 2] 0)
   \<and> Vector_copy_assign plain (mk_vector [1, 2] 3) (mk_vector [3, 4, 5, 6, 7] 0)
        = Ok (mk_vector [3, 4, 5, 6, 7] 0)
   \<and> Capacity (mk_vector [1, 2 :: nat] 3) = Capacity (mk_vector [3, 4, 5, 6, 7 :: nat] 0)
   \<and> fits plain (Size (mk_vector [3, 4, 5, 6, 7 :: nat] 0))
   \<and> Vector_copy_assign plain (mk_vector [1, 2] 0) (mk_vector [3, 4, 5, 6, 7] 0)
        = Ok (mk_vector [3, 4, 5, 6, 7] 0)
   \<and> Vector_copy plain (mk_vector [3, 4, 5, 6, 7] 0) = Ok (mk_vector [3, 4, 5, 6, 7] 0)"
proof -
  have h1: "vector_inv (mk_vector [1, 2 :: nat] 3)"
    and h2: "vector_inv (mk_vector [3, 4, 5, 6, 7 :: nat] 0)"
    and h3: "vector_inv (mk_vector [1, 2 :: nat] 0)" by simp_all
  have e1: "Vector_copy_assign plain (mk_vector [1, 2] 3) (mk_vector [3, 4, 5, 6, 7] 0)
      = Ok (mk_vector [3, 4, 5, 6, 7] 0)"
    by (simp add: copy_assign_fill)
  have e2: "Vector_copy_assign plain (mk_vector [1, 2] 0) (mk_vector [3, 4, 5, 6, 7] 0)
      = Ok (mk_vector [3, 4, 5, 6, 7] 0)"
    by (simp add: copy_assign_realloc block_slots_fits)
  from copy_assign_correct [OF h1 h2, of plain "mk_vector [3, 4, 5, 6, 7] 0"]
    copy_assign_correct [OF h3 h2, of plain "mk_vector [3, 4, 5, 6, 7] 0"] e1 e2 h1 h2 h3
  show ?thesis by simp
qed

subsection \<open>C8: growth by doubling\<close>

text \<open>
  C8: one append, by \<^verbatim>\<open>EmplaceBack\<close> or by \<^verbatim>\<open>PushBack\<close>, on a vector that satisfies the
  invariant never breaks a contract; when it returns, the size has grown by one, the new
  element is the last one, the capacity is unchanged if there was room, 1 if the block was
  full at capacity 0 and twice the old capacity otherwise, so it never decreases and is at
  least the new size; when it throws, size and capacity are unchanged.  It returns
  whenever nothing throws.  After \<open>n\<close> appends to the default vector, by either
  operation, the capacity is 0 for \<open>n = 0\<close> and otherwise the power of two with
  \<open>n \<le> 2 ^ k < 2 * n\<close>: the values 0, 1, 2, 4, 8, ...  The run returns whenever nothing
  throws.  All this for capacities whose size in bytes is computed without wrap-around.
\<close>

theorem append_growth_doubling:
  assumes "vector_inv v" "Size v = Capacity v \<longrightarrow> fits T (max 1 (2 * Capacity v))"
  shows "(EmplaceBack T v args = Ok (v', i) \<longrightarrow>
            vector_inv v' \<and> Size v' = Size v + 1 \<and> i = Size v
            \<and> elems v' = elems v @ [the (args (slots v))]
            \<and> Capacity v' = (if Size v < Capacity v then Capacity v
                              else if Capacity v = 0 then 1 else 2 * Capacity v)
            \<and> Capacity v \<le> Capacity v' \<and> Size v' \<le> Capacity v')
       \<and> (PushBack T v val = Ok u \<longrightarrow>
            vector_inv u \<and> Size u = Size v + 1
            \<and> elems u = elems v @ [fwd_value (val (slots v))]
            \<and> Capacity u = (if Size v < Capacity v then Capacity v
                             else if Capacity v = 0 then 1 else 2 * Capacity v)
            \<and> Capacity v \<le> Capacity u \<and> Size u \<le> Capacity u)
       \<and> (EmplaceBack T v args = Thrown (v'', blk) \<longrightarrow>
            vector_inv v'' \<and> Size v'' = Size v \<and> Capacity v'' = Capacity v)
       \<and> (PushBack T v val = Thrown (u', blk') \<longrightarrow>
            vector_inv u' \<and> Size u' = Size v \<and> Capacity u' = Capacity v)
       \<and> EmplaceBack T v args \<noteq> Violation
       \<and> PushBack T v val \<noteq> Violation
       \<and> (args (slots v) \<noteq> None
            \<and> (Size v = Capacity v \<longrightarrow>
                  \<not> bad_alloc T (grown (Capacity v)) \<and> \<not> transfer_throws T (elems v))
            \<longrightarrow> (\<exists>v' i. EmplaceBack T v args = Ok (v', i)))
       \<and> (construct_from T (val (slots v)) \<noteq> None
            \<and> (Size v = Capacity v \<longrightarrow>
                  \<not> bad_alloc T (grown (Capacity v)) \<and> \<not> transfer_throws T (elems v))
            \<longrightarrow> (\<exists>u. PushBack T v val = Ok u))
       \<and> (fits T (capacity_after (length as)) \<and> EmplaceBack_all T Vector_default as = Ok w \<longrightarrow>
            vector_inv w \<and> Size w = length as \<and> elems w = map the as
            \<and> Capacity w = capacity_after (length as)
            \<and> (length as = 0 \<and> Capacity w = 0
                \<or> (\<exists>k. Capacity w = 2 ^ k \<and> length as \<le> 2 ^ k \<and> 2 ^ k < 2 * length as)))
       \<and> (fits T (capacity_after (length vals)) \<and> PushBack_all T Vector_default vals = Ok w' \<longrightarrow>
            vector_inv w' \<and> Size w' = length vals \<and> elems w' = map fwd_value vals
            \<and> Capacity w' = capacity_after (length vals)
            \<and> (length vals = 0 \<and> Capacity w' = 0
                \<or> (\<exists>k. Capacity w' = 2 ^ k \<and> length vals \<le> 2 ^ k \<and> 2 ^ k < 2 * length vals)))
       \<and> (fits T (capacity_after (length as)) \<and> list_all (\<lambda>a. a \<noteq> None) as
            \<and> (\<forall>n. \<not> bad_alloc T n) \<and> (\<forall>ys. \<not> transfer_throws T ys)
            \<longrightarrow> (\<exists>w. EmplaceBack_all T Vector_default as = Ok w))
       \<and> (fits T (capacity_after (length vals))
            \<and> list_all (\<lambda>val. construct_from T val \<noteq> None) vals
            \<and> (\<forall>n. \<not> bad_alloc T n) \<and> (\<forall>ys. \<not> transfer_throws T ys)
            \<longrightarrow> (\<exists>w. PushBack_all T Vector_default vals = Ok w))"
proof -
  obtain xs j where v: "v = mk_vector xs j"
    using vector_inv_repr [OF assms(1)] by blast
  from assms(2) have f: "fits T (max 1 (2 * length xs))" if "j = 0"
    using that by (simp add: v)
  note e = EmplaceBack_mk [OF f]
  have mx: "max (Suc 0) (2 * length xs) = (if xs = [] then Suc 0 else 2 * length xs)"
    by (cases xs) simp_all
  have g: "grown (length xs) - Suc (length xs) + Suc (length xs) = grown (length xs)
      \<and> grown (length xs) = max 1 (2 * length xs)" if "j = 0"
    using grown_fits(1,2) [OF f [OF that]] by simp
  have step: "vector_inv v' \<and> Size v' = Size v + 1 \<and> i = Size v
            \<and> elems v' = elems v @ [the (a (slots v))]
            \<and> Capacity v' = (if Size v < Capacity v then Capacity v
                              else if Capacity v = 0 then 1 else 2 * Capacity v)
            \<and> Capacity v \<le> Capacity v' \<and> Size v' \<le> Capacity v'"
    if "EmplaceBack T v a = Ok (v', i)" for a v' i
    using that g unfolding v
    by (cases j) (auto simp add: e mx split: if_splits option.splits)
  have thrown: "vector_inv v'' \<and> Size v'' = Size v \<and> Capacity v'' = Capacity v"
    if "EmplaceBack T v a = Thrown (v'', blk)" for a v'' blk
    using that unfolding v
    by (auto simp add: e split: if_splits option.splits)
  have nov: "EmplaceBack T v a \<noteq> Violation" for a
    unfolding v by (simp add: e split: option.splits)
  have total: "\<exists>v' i. EmplaceBack T v a = Ok (v', i)"
    if "a (slots v) \<noteq> None"
      "Size v = Capacity v \<longrightarrow> \<not> bad_alloc T (grown (Capacity v)) \<and> \<not> transfer_throws T (elems v)"
    for a
    using that unfolding v
    by (cases j) (auto simp add: e split: option.splits)
  have 1: "EmplaceBack T v args = Ok (v', i) \<longrightarrow>
            vector_inv v' \<and> Size v' = Size v + 1 \<and> i = Size v
            \<and> elems v' = elems v @ [the (args (slots v))]
            \<and> Capacity v' = (if Size v < Capacity v then Capacity v
                              else if Capacity v = 0 then 1 else 2 * Capacity v)
            \<and> Capacity v \<le> Capacity v' \<and> Size v' \<le> Capacity v'"
    using step by blast
  have 2: "PushBack T v val = Ok u \<longrightarrow>
            vector_inv u \<and> Size u = Size v + 1
            \<and> elems u = elems v @ [fwd_value (val (slots v))]
            \<and> Capacity u = (if Size v < Capacity v then Capacity v
                             else if Capacity v = 0 then 1 else 2 * Capacity v)
            \<and> Capacity v \<le> Capacity u \<and> Size u \<le> Capacity u"
  proof
    assume "PushBack T v val = Ok u"
    then obtain k where ok: "EmplaceBack T v (\<lambda>b. construct_from T (val b)) = Ok (u, k)"
      by (auto simp add: PushBack_def split: outcome.splits)
    from EmplaceBack_Ok_arg [OF ok] obtain y where y: "construct_from T (val (slots v)) = Some y"
      by auto
    from step [OF ok] y construct_from_value [OF y]
    show "vector_inv u \<and> Size u = Size v + 1
            \<and> elems u = elems v @ [fwd_value (val (slots v))]
            \<and> Capacity u = (if Size v < Capacity v then Capacity v
                             else if Capacity v = 0 then 1 else 2 * Capacity v)
            \<and> Capacity v \<le> Capacity u \<and> Size u \<le> Capacity u"
      by simp
  qed
  have 3: "EmplaceBack T v args = Thrown (v'', blk) \<longrightarrow>
            vector_inv v'' \<and> Size v'' = Size v \<and> Capacity v'' = Capacity v"
    using thrown by blast
  have 4: "PushBack T v val = Thrown (u', blk') \<longrightarrow>
            vector_inv u' \<and> Size u' = Size v \<and> Capacity u' = Capacity v"
  proof
    assume "PushBack T v val = Thrown (u', blk')"
    then have "EmplaceBack T v (\<lambda>b. construct_from T (val b)) = Thrown (u', blk')"
      by (auto simp add: PushBack_def split: outcome.splits)
    then show "vector_inv u' \<and> Size u' = Size v \<and> Capacity u' = Capacity v"
      by (rule thrown)
  qed
  have 5: "EmplaceBack T v args \<noteq> Violation"
    by (rule nov)
  have 6: "PushBack T v val \<noteq> Violation"
    using nov [of "\<lambda>b. construct_from T (val b)"]
    by (auto simp add: PushBack_def split: outcome.splits)
  have 7: "args (slots v) \<noteq> None
            \<and> (Size v = Capacity v \<longrightarrow>
                  \<not> bad_alloc T (grown (Capacity v)) \<and> \<not> transfer_throws T (elems v))
            \<longrightarrow> (\<exists>v' i. EmplaceBack T v args = Ok (v', i))"
    using total by blast
  have 8: "construct_from T (val (slots v)) \<noteq> None
            \<and> (Size v = Capacity v \<longrightarrow>
                  \<not> bad_alloc T (grown (Capacity v)) \<and> \<not> transfer_throws T (elems v))
            \<longrightarrow> (\<exists>u. PushBack T v val = Ok u)"
  proof
    assume a: "construct_from T (val (slots v)) \<noteq> None
            \<and> (Size v = Capacity v \<longrightarrow>
                  \<not> bad_alloc T (grown (Capacity v)) \<and> \<not> transfer_throws T (elems v))"
    then obtain u k where "EmplaceBack T v (\<lambda>b. construct_from T (val b)) = Ok (u, k)"
      using total [of "\<lambda>b. construct_from T (val b)"] by blast
    then show "\<exists>u. PushBack T v val = Ok u"
      by (simp add: PushBack_def)
  qed
  have run: "vector_inv w \<and> Size w = length bs \<and> elems w = map the bs
            \<and> Capacity w = capacity_after (length bs)
            \<and> (length bs = 0 \<and> Capacity w = 0
                \<or> (\<exists>k. Capacity w = 2 ^ k \<and> length bs \<le> 2 ^ k \<and> 2 ^ k < 2 * length bs))"
    if "fits T (capacity_after (length bs))" "EmplaceBack_all T Vector_default bs = Ok w" for bs w
  proof -
    from that have "EmplaceBack_all T (mk_vector [] 0) bs = Ok w"
      "fits T (capacity_after (length ([] :: 'a list) + length bs))"
      by (simp_all add: Vector_default_mk)
    from EmplaceBack_all_run [OF this(1) _ this(2)]
    have w: "w = mk_vector (map the bs) (capacity_after (length bs) - length bs)" by simp
    have c: "Capacity w = capacity_after (length bs)"
      unfolding w using capacity_after_ge [of "length bs"] by simp
    show ?thesis
      using capacity_after_power [of "length bs"] unfolding c by (simp add: w)
  qed
  have 9: "fits T (capacity_after (length as)) \<and> EmplaceBack_all T Vector_default as = Ok w \<longrightarrow>
            vector_inv w \<and> Size w = length as \<and> elems w = map the as
            \<and> Capacity w = capacity_after (length as)
            \<and> (length as = 0 \<and> Capacity w = 0
                \<or> (\<exists>k. Capacity w = 2 ^ k \<and> length as \<le> 2 ^ k \<and> 2 ^ k < 2 * length as))"
    using run by blast
  have 10: "fits T (capacity_after (length vals)) \<and> PushBack_all T Vector_default vals = Ok w' \<longrightarrow>
            vector_inv w' \<and> Size w' = length vals \<and> elems w' = map fwd_value vals
            \<and> Capacity w' = capacity_after (length vals)
            \<and> (length vals = 0 \<and> Capacity w' = 0
                \<or> (\<exists>k. Capacity w' = 2 ^ k \<and> length vals \<le> 2 ^ k \<and> 2 ^ k < 2 * length vals))"
  proof
    assume a: "fits T (capacity_after (length vals)) \<and> PushBack_all T Vector_default vals = Ok w'"
    then have r: "EmplaceBack_all T Vector_default (map (construct_from T) vals) = Ok w'"
      by (simp add: PushBack_all_eq)
    from constructed_values [OF EmplaceBack_all_args [OF r]]
    have m: "map the (map (construct_from T) vals) = map fwd_value vals" .
    from a have "fits T (capacity_after (length (map (construct_from T) vals)))" by simp
    from run [OF this r, unfolded length_map m]
    show "vector_inv w' \<and> Size w' = length vals \<and> elems w' = map fwd_value vals
            \<and> Capacity w' = capacity_after (length vals)
            \<and> (length vals = 0 \<and> Capacity w' = 0
                \<or> (\<exists>k. Capacity w' = 2 ^ k \<and> length vals \<le> 2 ^ k \<and> 2 ^ k < 2 * length vals))"
      .
  qed
  have tot: "\<exists>w. EmplaceBack_all T Vector_default bs = Ok w"
    if "fits T (capacity_after (length bs))" "list_all (\<lambda>a. a \<noteq> None) bs"
      "\<forall>n. \<not> bad_alloc T n" "\<forall>ys. \<not> transfer_throws T ys" for bs
    using EmplaceBack_all_total [of bs T "[]" 0] that by (simp add: Vector_default_mk)
  have 11: "fits T (capacity_after (length as)) \<and> list_all (\<lambda>a. a \<noteq> None) as
            \<and> (\<forall>n. \<not> bad_alloc T n) \<and> (\<forall>ys. \<not> transfer_throws T ys)
            \<longrightarrow> (\<exists>w. EmplaceBack_all T Vector_default as = Ok w)"
    using tot by blast
  have 12: "fits T (capacity_after (length vals))
            \<and> list_all (\<lambda>val. construct_from T val \<noteq> None) vals
            \<and> (\<forall>n. \<not> bad_alloc T n) \<and> (\<forall>ys. \<not> transfer_throws T ys)
            \<longrightarrow> (\<exists>w. PushBack_all T Vector_default vals = Ok w)"
    using tot [of "map (construct_from T) vals"]
    by (simp add: PushBack_all_eq list_all_iff)
  from 1 2 3 4 5 6 7 8 9 10 11 12 show ?thesis
    by (intro conjI)
qed

text \<open>The theorem at \<^verbatim>\<open>push_back(1), push_back(2), push_back(3)\<close> and at
  \<^verbatim>\<open>emplace_back(1), emplace_back(2), emplace_back(3)\<close> on an empty vector (capacity
  4), at one more append of each kind to the full vector \<open>[1, 2]\<close>, and at an append to
  it whose element constructor throws.\<close>

theorem append_growth_doubling_witness:
  "vector_inv (mk_vector [1, 2] 0)
   \<and> fits plain (max 1 (2 * Capacity (mk_vector [1, 2 :: nat] 0)))
   \<and> EmplaceBack plain (mk_vector [1, 2] 0) (\<lambda>b. Some 3) = Ok (mk_vector [1, 2, 3] 1, 2)
   \<and> PushBack plain (mk_vector [1, 2] 0) (\<lambda>b. Lvalue 3) = Ok (mk_vector [1, 2, 3] 1)
   \<and> Capacity (mk_vector [1, 2 :: nat] 0) = 2 \<and> Capacity (mk_vector [1, 2, 3 :: nat] 1) = 4
   \<and> EmplaceBack plain (mk_vector [1, 2] 0) (\<lambda>b. None)
        = Thrown (mk_vector [1, 2] 0, [None, None, None, None])
   \<and> fits plain (capacity_after (length [Some 1, Some 2, Some (3 :: nat)]))
   \<and> EmplaceBack_all plain Vector_default [Some 1, Some 2, Some 3] = Ok (mk_vector [1, 2, 3] 1)
   \<and> PushBack_all plain Vector_default [Rvalue 1, Lvalue 2, Rvalue 3] = Ok (mk_vector [1, 2, 3] 1)
   \<and> capacity_after 3 = 4"
proof -
  have h: "vector_inv (mk_vector [1, 2 :: nat] 0)" by simp
  have f: "Size (mk_vector [1, 2 :: nat] 0) = Capacity (mk_vector [1, 2 :: nat] 0)
      \<longrightarrow> fits plain (max 1 (2 * Capacity (mk_vector [1, 2 :: nat] 0)))"
    by simp
  have e: "EmplaceBack plain (mk_vector [1, 2] 0) (\<lambda>b. Some 3) = Ok (mk_vector [1, 2, 3] 1, 2)"
    by (simp add: EmplaceBack_mk grown_def)
  have p: "PushBack plain (mk_vector [1, 2] 0) (\<lambda>b. Lvalue 3) = Ok (mk_vector [1, 2, 3] 1)"
    by (simp add: PushBack_def EmplaceBack_mk grown_def)
  have r4: "replicate 4 (None :: nat option) = [None, None, None, None]"
    by (simp add: numeral_eq_Suc)
  have t: "EmplaceBack plain (mk_vector [1, 2] 0) (\<lambda>b. None)
      = Thrown (mk_vector [1, 2] 0, [None, None, None, None])"
    by (simp add: EmplaceBack_mk grown_def r4)
  have c: "capacity_after 3 = 4"
    by (simp add: numeral_3_eq_3)
  have r: "EmplaceBack_all plain Vector_default [Some 1, Some 2, Some 3] = Ok (mk_vector [1, 2, 3] 1)"
    by (simp add: Vector_default_mk EmplaceBack_mk grown_def)
  have q: "PushBack_all plain Vector_default [Rvalue 1, Lvalue 2, Rvalue 3]
      = Ok (mk_vector [1, 2, 3] 1)"
    using r by (simp add: PushBack_all_eq)
  from append_growth_doubling [OF h f, of "\<lambda>b. Some 3" "mk_vector [1, 2, 3] 1" 2
      "\<lambda>b. Lvalue 3" "mk_vector [1, 2, 3] 1" _ _ _ _
      "[Some 1, Some 2, Some 3]" "mk_vector [1, 2, 3] 1"
      "[Rvalue 1, Lvalue 2, Rvalue 3]" "mk_vector [1, 2, 3] 1"]
    append_growth_doubling [OF h f, of "\<lambda>b. None" _ _ "\<lambda>b. Rvalue 3" _
      "mk_vector [1, 2] 0" "[None, None, None, None]" _ _ "[]" Vector_default "[]" Vector_default]
    e p t r q h c
  show ?thesis by simp
qed

subsection \<open>C5: a failure while the vector grows\<close>




end
